theory Spec2Isabelle
  imports Complex_Main
begin

section \<open>Python values and list operations used by the environments\<close>

text \<open>
  The exceptions the two environment classes can raise. \<open>RuntimeError\<close> carries its
  message (the source raises \<open>RuntimeError("Episode is done")\<close>, the specification's
  EpisodeExhausted), \<open>ValueError\<close> carries its two arguments (the source raises
  \<open>ValueError('Invalid action ', action)\<close>, the specification's InvalidAction), and
  \<open>IndexError\<close> is what Python raises when a list is read out of range.
\<close>

datatype error = RuntimeError string | ValueError string int | IndexError

text \<open>\<open>gym.spaces.Discrete(n)\<close>: only the cardinality is kept.\<close>

datatype space = Discrete nat

text \<open>
  Python's \<open>xs[i]\<close> on a list: a negative index counts from the end, and an index out
  of range raises IndexError (here \<open>None\<close>).
\<close>

definition py_index :: "'a list \<Rightarrow> int \<Rightarrow> 'a option" where
  "py_index xs i =
     (let n = int (length xs); j = (if i < 0 then i + n else i)
      in if 0 \<le> j \<and> j < n then Some (xs ! nat j) else None)"

text \<open>
  Python's \<open>xss[i].append(v)\<close>: the inner list at index \<open>i\<close> grows by \<open>v\<close> in place;
  IndexError (here \<open>None\<close>) when \<open>i\<close> is out of range, and then nothing is changed.
\<close>

definition py_append_at :: "'a list list \<Rightarrow> int \<Rightarrow> 'a \<Rightarrow> 'a list list option" where
  "py_append_at xss i v =
     (let n = int (length xss); j = (if i < 0 then i + n else i)
      in if 0 \<le> j \<and> j < n then Some (xss[nat j := (xss ! nat j) @ [v]]) else None)"

text \<open>Python's slice \<open>xs[-2:]\<close>: the last two elements, or all of \<open>xs\<close> when it is shorter.\<close>

definition py_last_two :: "'a list \<Rightarrow> 'a list" where
  "py_last_two xs = drop (length xs - 2) xs"

section \<open>The environment state\<close>

text \<open>
  The attributes set by \<open>__init__\<close> of both classes. The type parameter is the type of
  one observation: a one-element list of a real sample in \<open>GreaterThanZeroEnv\<close>, a
  one-element list of an integer in \<open>TwoInARowEnv\<close>.
\<close>

record 'o env =
  max_steps_per_episode :: int
  version :: string
  curr_episode :: int
  obs_episode_memory :: "'o list list"
  action_episode_memory :: "int list list"
  curr_step :: int
  action_space :: space
  observation_space :: space

text \<open>What \<open>step\<close> returns: \<open>(ob, reward, done, info)\<close>, where \<open>info\<close> is the empty dict.\<close>

type_synonym 'o step_result = "'o \<times> int \<times> bool \<times> (string \<times> string) list"

section \<open>GreaterThanZeroEnv (module fobs)\<close>

text \<open>
  The sample drawn by \<open>np.random.randn()\<close> is an argument of the functions that draw
  it; it is a real number, and the code only compares it with zero.
\<close>

definition GreaterThanZeroEnv_init :: "int \<Rightarrow> real list env" where
  "GreaterThanZeroEnv_init max_steps =
     \<lparr>max_steps_per_episode = max_steps,
      version = ''0.0.2'',
      curr_episode = -1,
      obs_episode_memory = [],
      action_episode_memory = [],
      curr_step = 0,
      action_space = Discrete 2,
      observation_space = Discrete 2\<rparr>"

definition GreaterThanZeroEnv_take_action :: "int \<Rightarrow> error + unit" where
  "GreaterThanZeroEnv_take_action action =
     (if action \<notin> set [0, 1] then Inl (ValueError ''Invalid action '' action) else Inr ())"

definition GreaterThanZeroEnv_get_reward :: "real list env \<Rightarrow> error + int" where
  "GreaterThanZeroEnv_get_reward s =
     (case py_index (action_episode_memory s) (curr_episode s) of
        None \<Rightarrow> Inl IndexError
      | Some acts \<Rightarrow>
     (case py_index acts (-1) of
        None \<Rightarrow> Inl IndexError
      | Some action \<Rightarrow>
     (case py_index (obs_episode_memory s) (curr_episode s) of
        None \<Rightarrow> Inl IndexError
      | Some obss \<Rightarrow>
     (case py_index obss (-1) of
        None \<Rightarrow> Inl IndexError
      | Some last_obs \<Rightarrow>
     (case py_index last_obs 0 of
        None \<Rightarrow> Inl IndexError
      | Some x \<Rightarrow>
          Inr (if x > 0 then (if action = 1 then 1 else -1)
               else (if action = 1 then -1 else 1)))))))"

definition GreaterThanZeroEnv_get_obs :: "real \<Rightarrow> real list" where
  "GreaterThanZeroEnv_get_obs sample = [sample]"

definition GreaterThanZeroEnv_step_reset :: "real list env \<Rightarrow> real list env" where
  "GreaterThanZeroEnv_step_reset s = s"

text \<open>
  \<open>step\<close>: the state returned beside an error is the state the raise leaves behind, so
  every assignment made before the raise is in it.
\<close>

definition GreaterThanZeroEnv_step ::
  "int \<Rightarrow> real \<Rightarrow> real list env \<Rightarrow> (error + real list step_result) \<times> real list env" where
  "GreaterThanZeroEnv_step action sample s =
     (if curr_step s \<ge> max_steps_per_episode s then (Inl (RuntimeError ''Episode is done''), s)
      else
        let s1 = s\<lparr>curr_step := curr_step s + 1\<rparr> in
        (case py_append_at (action_episode_memory s1) (curr_episode s1) action of
           None \<Rightarrow> (Inl IndexError, s1)
         | Some am \<Rightarrow>
             let s2 = s1\<lparr>action_episode_memory := am\<rparr> in
             (case GreaterThanZeroEnv_take_action action of
                Inl e \<Rightarrow> (Inl e, s2)
              | Inr _ \<Rightarrow>
                  let done = (curr_step s2 \<ge> max_steps_per_episode s2) in
                  (case GreaterThanZeroEnv_get_reward s2 of
                     Inl e \<Rightarrow> (Inl e, s2)
                   | Inr reward \<Rightarrow>
                       let ob = GreaterThanZeroEnv_get_obs sample in
                       (case py_append_at (obs_episode_memory s2) (curr_episode s2) ob of
                          None \<Rightarrow> (Inl IndexError, s2)
                        | Some om \<Rightarrow>
                            let s3 = s2\<lparr>obs_episode_memory := om\<rparr>;
                                s4 = GreaterThanZeroEnv_step_reset s3
                            in (Inr (ob, reward, done, []), s4))))))"

text \<open>\<open>reset\<close> raises nothing: it returns the initial observation and the new state.\<close>

definition GreaterThanZeroEnv_reset :: "real \<Rightarrow> real list env \<Rightarrow> real list \<times> real list env" where
  "GreaterThanZeroEnv_reset sample s =
     (let s1 = s\<lparr>curr_step := 0\<rparr>;
          s2 = s1\<lparr>curr_episode := curr_episode s1 + 1\<rparr>;
          s3 = s2\<lparr>action_episode_memory := action_episode_memory s2 @ [[]]\<rparr>;
          initial_obs = [sample];
          s4 = s3\<lparr>obs_episode_memory := obs_episode_memory s3 @ [[initial_obs]]\<rparr>
      in (initial_obs, s4))"

section \<open>TwoInARowEnv (module pobs)\<close>

text \<open>
  Python's \<open>random.choice(seq)\<close> is \<open>seq[randbelow(len(seq))]\<close> and raises IndexError on
  an empty sequence. The raw draw of the random source is an argument \<open>r\<close>, reduced
  below the length of the sequence.
\<close>

definition random_choice :: "'a list \<Rightarrow> nat \<Rightarrow> 'a option" where
  "random_choice seq r = (if seq = [] then None else Some (seq ! (r mod length seq)))"

definition TwoInARowEnv_init :: "int \<Rightarrow> int list env" where
  "TwoInARowEnv_init max_steps =
     \<lparr>max_steps_per_episode = max_steps,
      version = ''0.0.2'',
      curr_episode = -1,
      obs_episode_memory = [],
      action_episode_memory = [],
      curr_step = 0,
      action_space = Discrete 2,
      observation_space = Discrete 2\<rparr>"

definition TwoInARowEnv_take_action :: "int \<Rightarrow> error + unit" where
  "TwoInARowEnv_take_action action =
     (if action \<notin> set [0, 1] then Inl (ValueError ''Invalid action '' action) else Inr ())"

definition TwoInARowEnv_get_reward :: "int list env \<Rightarrow> error + int" where
  "TwoInARowEnv_get_reward s =
     (case py_index (action_episode_memory s) (curr_episode s) of
        None \<Rightarrow> Inl IndexError
      | Some acts \<Rightarrow>
     (case py_index acts (-1) of
        None \<Rightarrow> Inl IndexError
      | Some action \<Rightarrow>
     (case py_index (obs_episode_memory s) (curr_episode s) of
        None \<Rightarrow> Inl IndexError
      | Some obss \<Rightarrow>
          if length obss < 2 then Inr (if action = 0 then 1 else -1)
          else
            let last_n_obs = py_last_two obss in
            (case py_index last_n_obs 0 of
               None \<Rightarrow> Inl IndexError
             | Some o0 \<Rightarrow>
            (case py_index last_n_obs 1 of
               None \<Rightarrow> Inl IndexError
             | Some o1 \<Rightarrow>
                 Inr (if o0 = o1 then (if action = 1 then 1 else -1)
                      else (if action = 0 then 1 else -1)))))))"

definition TwoInARowEnv_get_obs :: "nat \<Rightarrow> error + int list" where
  "TwoInARowEnv_get_obs r =
     (case random_choice [0, 1] r of None \<Rightarrow> Inl IndexError | Some v \<Rightarrow> Inr [v])"

definition TwoInARowEnv_step_reset :: "int list env \<Rightarrow> int list env" where
  "TwoInARowEnv_step_reset s = s"

definition TwoInARowEnv_step ::
  "int \<Rightarrow> nat \<Rightarrow> int list env \<Rightarrow> (error + int list step_result) \<times> int list env" where
  "TwoInARowEnv_step action r s =
     (if curr_step s \<ge> max_steps_per_episode s then (Inl (RuntimeError ''Episode is done''), s)
      else
        let s1 = s\<lparr>curr_step := curr_step s + 1\<rparr> in
        (case py_append_at (action_episode_memory s1) (curr_episode s1) action of
           None \<Rightarrow> (Inl IndexError, s1)
         | Some am \<Rightarrow>
             let s2 = s1\<lparr>action_episode_memory := am\<rparr> in
             (case TwoInARowEnv_take_action action of
                Inl e \<Rightarrow> (Inl e, s2)
              | Inr _ \<Rightarrow>
                  let done = (curr_step s2 \<ge> max_steps_per_episode s2) in
                  (case TwoInARowEnv_get_reward s2 of
                     Inl e \<Rightarrow> (Inl e, s2)
                   | Inr reward \<Rightarrow>
                  (case TwoInARowEnv_get_obs r of
                     Inl e \<Rightarrow> (Inl e, s2)
                   | Inr ob \<Rightarrow>
                  (case py_append_at (obs_episode_memory s2) (curr_episode s2) ob of
                     None \<Rightarrow> (Inl IndexError, s2)
                   | Some om \<Rightarrow>
                       let s3 = s2\<lparr>obs_episode_memory := om\<rparr>;
                           s4 = TwoInARowEnv_step_reset s3
                       in (Inr (ob, reward, done, []), s4)))))))"

definition TwoInARowEnv_reset :: "nat \<Rightarrow> int list env \<Rightarrow> (error + int list) \<times> int list env" where
  "TwoInARowEnv_reset r s =
     (let s1 = s\<lparr>curr_step := 0\<rparr>;
          s2 = s1\<lparr>curr_episode := curr_episode s1 + 1\<rparr>;
          s3 = s2\<lparr>action_episode_memory := action_episode_memory s2 @ [[]]\<rparr>
      in (case TwoInARowEnv_get_obs r of
            Inl e \<Rightarrow> (Inl e, s3)
          | Inr initial_obs \<Rightarrow>
              (Inr initial_obs, s3\<lparr>obs_episode_memory := obs_episode_memory s3 @ [[initial_obs]]\<rparr>)))"

subsection \<open>q_values\<close>





















section \<open>Drivers: sequences of calls\<close>

text \<open>
  A caller's sequence of calls. \<open>Reset x\<close> and \<open>Step a x\<close> carry the draw \<open>x\<close> of the
  random source that the call consumes. A caller that catches the exception of a
  failed call goes on with the state the call left behind.
\<close>

datatype 'x call = Reset 'x | Step int 'x

fun GreaterThanZeroEnv_call :: "real call \<Rightarrow> real list env \<Rightarrow> real list env" where
  "GreaterThanZeroEnv_call (Reset x) s = snd (GreaterThanZeroEnv_reset x s)"
| "GreaterThanZeroEnv_call (Step a x) s = snd (GreaterThanZeroEnv_step a x s)"

definition GreaterThanZeroEnv_run :: "real call list \<Rightarrow> real list env \<Rightarrow> real list env" where
  "GreaterThanZeroEnv_run calls s = fold GreaterThanZeroEnv_call calls s"

fun TwoInARowEnv_call :: "nat call \<Rightarrow> int list env \<Rightarrow> int list env" where
  "TwoInARowEnv_call (Reset r) s = snd (TwoInARowEnv_reset r s)"
| "TwoInARowEnv_call (Step a r) s = snd (TwoInARowEnv_step a r s)"

definition TwoInARowEnv_run :: "nat call list \<Rightarrow> int list env \<Rightarrow> int list env" where
  "TwoInARowEnv_run calls s = fold TwoInARowEnv_call calls s"

text \<open>
  Consecutive \<open>step\<close> calls, stopping at the first one that raises: the results of the
  calls so far, or the error, and the state left behind.
\<close>

fun GreaterThanZeroEnv_steps ::
  "(int \<times> real) list \<Rightarrow> real list env
     \<Rightarrow> (error + real list step_result list) \<times> real list env" where
  "GreaterThanZeroEnv_steps [] s = (Inr [], s)"
| "GreaterThanZeroEnv_steps ((a, x) # rest) s =
     (case GreaterThanZeroEnv_step a x s of
        (Inl e, s1) \<Rightarrow> (Inl e, s1)
      | (Inr res, s1) \<Rightarrow>
          (case GreaterThanZeroEnv_steps rest s1 of
             (Inl e, s2) \<Rightarrow> (Inl e, s2)
           | (Inr ress, s2) \<Rightarrow> (Inr (res # ress), s2)))"

fun TwoInARowEnv_steps ::
  "(int \<times> nat) list \<Rightarrow> int list env
     \<Rightarrow> (error + int list step_result list) \<times> int list env" where
  "TwoInARowEnv_steps [] s = (Inr [], s)"
| "TwoInARowEnv_steps ((a, r) # rest) s =
     (case TwoInARowEnv_step a r s of
        (Inl e, s1) \<Rightarrow> (Inl e, s1)
      | (Inr res, s1) \<Rightarrow>
          (case TwoInARowEnv_steps rest s1 of
             (Inl e, s2) \<Rightarrow> (Inl e, s2)
           | (Inr ress, s2) \<Rightarrow> (Inr (res # ress), s2)))"

text \<open>
  The active episode record: the action log and the observation log that
  \<open>curr_episode\<close> indexes, when it indexes one.
\<close>

definition active_actions :: "'o env \<Rightarrow> int list option" where
  "active_actions s = py_index (action_episode_memory s) (curr_episode s)"

definition active_observations :: "'o env \<Rightarrow> 'o list option" where
  "active_observations s = py_index (obs_episode_memory s) (curr_episode s)"

text \<open>
  The bookkeeping that \<open>__init__\<close> sets up and every call keeps: \<open>curr_episode\<close> is the
  index of the last episode record, and the two memories hold one log per episode.
\<close>

definition episode_indexed :: "'o env \<Rightarrow> bool" where
  "episode_indexed s \<longleftrightarrow>
     curr_episode s + 1 = int (length (action_episode_memory s)) \<and>
     length (obs_episode_memory s) = length (action_episode_memory s)"

text \<open>The \<open>done\<close> flag of a result of \<open>step\<close>.\<close>

definition done_flag :: "'o step_result \<Rightarrow> bool" where
  "done_flag res = fst (snd (snd res))"

text \<open>The reward of a result of \<open>step\<close>.\<close>

definition reward_of :: "'o step_result \<Rightarrow> int" where
  "reward_of res = fst (snd res)"

section \<open>Facts about the list operations\<close>

lemma py_append_at_index:
  "py_index xss i = Some ys \<Longrightarrow>
     \<exists>zss. py_append_at xss i v = Some zss \<and> py_index zss i = Some (ys @ [v]) \<and> length zss = length xss"
  by (auto simp: py_index_def py_append_at_def Let_def split: if_splits)

lemma py_append_at_None: "py_index xss i = None \<Longrightarrow> py_append_at xss i v = None"
  by (auto simp: py_index_def py_append_at_def Let_def split: if_splits)

lemma py_append_at_length: "py_append_at xss i v = Some zss \<Longrightarrow> length zss = length xss"
  by (auto simp: py_append_at_def Let_def split: if_splits)

lemma py_index_last: "xs \<noteq> [] \<Longrightarrow> py_index xs (-1) = Some (last xs)"
  by (auto simp: py_index_def Let_def last_conv_nth nat_diff_distrib')

lemma py_index_snoc_last: "py_index (xs @ [x]) (-1) = Some x"
  using py_index_last [of "xs @ [x]"] by simp

lemma py_index_zero: "py_index (x # xs) 0 = Some x"
  by (simp add: py_index_def)

lemma py_last_two_index:
  assumes "\<not> length xs < 2"
  shows "py_index (py_last_two xs) 0 = Some (xs ! (length xs - 2))"
    and "py_index (py_last_two xs) 1 = Some (xs ! (length xs - 1))"
proof -
  have len: "length (py_last_two xs) = 2"
    using assms by (simp add: py_last_two_def)
  have "py_last_two xs ! 0 = xs ! (length xs - 2)"
    using assms by (simp add: py_last_two_def)
  moreover have "length xs - 2 + 1 = length xs - 1"
    using assms by simp
  then have "py_last_two xs ! 1 = xs ! (length xs - 1)"
    using assms by (simp add: py_last_two_def)
  ultimately show "py_index (py_last_two xs) 0 = Some (xs ! (length xs - 2))"
    and "py_index (py_last_two xs) 1 = Some (xs ! (length xs - 1))"
    using len by (simp_all add: py_index_def)
qed

lemma choice_zero_one: "[0, 1 :: int] ! (r mod length [0, 1 :: int]) = int (r mod 2)"
proof -
  have len: "length [0, 1 :: int] = 2" by simp
  have "r mod 2 = 0 \<or> r mod 2 = 1" by presburger
  then show ?thesis
    unfolding len by (elim disjE) simp_all
qed

section \<open>One call of step in GreaterThanZeroEnv\<close>

lemma GreaterThanZeroEnv_step_exhausted:
  "curr_step s \<ge> max_steps_per_episode s \<Longrightarrow>
     GreaterThanZeroEnv_step a x s = (Inl (RuntimeError ''Episode is done''), s)"
  by (simp add: GreaterThanZeroEnv_step_def)

lemma GreaterThanZeroEnv_get_reward_eq:
  assumes "py_index (action_episode_memory s) (curr_episode s) = Some (acts @ [a])"
    and "py_index (obs_episode_memory s) (curr_episode s) = Some obss"
    and "obss \<noteq> []" and "last obss = x # rest"
  shows "GreaterThanZeroEnv_get_reward s =
           Inr (if x > 0 then (if a = 1 then 1 else -1) else (if a = 1 then -1 else 1))"
  unfolding GreaterThanZeroEnv_get_reward_def
  by (simp only: assms option.case py_index_snoc_last py_index_last [OF assms(3)] py_index_zero)


lemma GreaterThanZeroEnv_take_action_invalid:
  "a \<noteq> 0 \<Longrightarrow> a \<noteq> 1 \<Longrightarrow>
     GreaterThanZeroEnv_take_action a = Inl (ValueError ''Invalid action '' a)"
  by (simp add: GreaterThanZeroEnv_take_action_def)

lemma GreaterThanZeroEnv_take_action_valid:
  "a = 0 \<or> a = 1 \<Longrightarrow> GreaterThanZeroEnv_take_action a = Inr ()"
  by (auto simp add: GreaterThanZeroEnv_take_action_def)

lemma GreaterThanZeroEnv_step_invalid_aux:
  assumes "curr_step s < max_steps_per_episode s"
    and "py_append_at (action_episode_memory s) (curr_episode s) a = Some am"
    and "a \<noteq> 0" and "a \<noteq> 1"
  shows "GreaterThanZeroEnv_step a x s =
            (Inl (ValueError ''Invalid action '' a),
             s\<lparr>curr_step := curr_step s + 1, action_episode_memory := am\<rparr>)"
  using assms(1,2)
  by (simp add: GreaterThanZeroEnv_step_def GreaterThanZeroEnv_take_action_invalid [OF assms(3,4)])


lemma GreaterThanZeroEnv_step_invalid:
  assumes "curr_step s < max_steps_per_episode s"
    and "active_actions s = Some acts"
    and "a \<noteq> 0" and "a \<noteq> 1"
  shows "\<exists>am. GreaterThanZeroEnv_step a x s =
            (Inl (ValueError ''Invalid action '' a),
             s\<lparr>curr_step := curr_step s + 1, action_episode_memory := am\<rparr>)
          \<and> py_index am (curr_episode s) = Some (acts @ [a])
          \<and> length am = length (action_episode_memory s)"
proof -
  have "py_index (action_episode_memory s) (curr_episode s) = Some acts"
    using assms(2) by (simp only: active_actions_def)
  from py_append_at_index [OF this, of a] obtain am where am:
    "py_append_at (action_episode_memory s) (curr_episode s) a = Some am"
    "py_index am (curr_episode s) = Some (acts @ [a])"
    "length am = length (action_episode_memory s)"
    by (elim exE conjE)
  show ?thesis
    by (rule exI [of _ am])
       (simp only: GreaterThanZeroEnv_step_invalid_aux [OF assms(1) am(1) assms(3,4)] am(2,3) simp_thms)
qed

lemma GreaterThanZeroEnv_step_valid_aux:
  assumes "curr_step s < max_steps_per_episode s"
    and "py_append_at (action_episode_memory s) (curr_episode s) a = Some am"
    and "a = 0 \<or> a = 1"
    and "GreaterThanZeroEnv_get_reward
           (s\<lparr>curr_step := curr_step s + 1, action_episode_memory := am\<rparr>) = Inr rew"
    and "py_append_at (obs_episode_memory s) (curr_episode s) [x] = Some om"
  shows "GreaterThanZeroEnv_step a x s =
            (Inr ([x], rew, curr_step s + 1 \<ge> max_steps_per_episode s, []),
             s\<lparr>curr_step := curr_step s + 1, action_episode_memory := am,
               obs_episode_memory := om\<rparr>)"
  using assms(1,2,4,5)
  by (simp add: GreaterThanZeroEnv_step_def GreaterThanZeroEnv_take_action_valid [OF assms(3)]
      GreaterThanZeroEnv_get_obs_def GreaterThanZeroEnv_step_reset_def)


lemma GreaterThanZeroEnv_step_valid:
  assumes "curr_step s < max_steps_per_episode s"
    and "active_actions s = Some acts"
    and "active_observations s = Some obss"
    and "obss \<noteq> []" and "last obss = v # rest"
    and "a = 0 \<or> a = 1"
  shows "\<exists>am om. GreaterThanZeroEnv_step a x s =
            (Inr ([x],
                  (if v > 0 then (if a = 1 then 1 else -1) else (if a = 1 then -1 else 1)),
                  curr_step s + 1 \<ge> max_steps_per_episode s, []),
             s\<lparr>curr_step := curr_step s + 1, action_episode_memory := am,
               obs_episode_memory := om\<rparr>)
          \<and> py_index am (curr_episode s) = Some (acts @ [a])
          \<and> length am = length (action_episode_memory s)
          \<and> py_index om (curr_episode s) = Some (obss @ [[x]])
          \<and> length om = length (obs_episode_memory s)"
proof -
  have "py_index (action_episode_memory s) (curr_episode s) = Some acts"
    using assms(2) by (simp only: active_actions_def)
  from py_append_at_index [OF this, of a] obtain am where am:
    "py_append_at (action_episode_memory s) (curr_episode s) a = Some am"
    "py_index am (curr_episode s) = Some (acts @ [a])"
    "length am = length (action_episode_memory s)"
    by (elim exE conjE)
  have obs: "py_index (obs_episode_memory s) (curr_episode s) = Some obss"
    using assms(3) by (simp only: active_observations_def)
  from py_append_at_index [OF obs, of "[x]"] obtain om where om:
    "py_append_at (obs_episode_memory s) (curr_episode s) [x] = Some om"
    "py_index om (curr_episode s) = Some (obss @ [[x]])"
    "length om = length (obs_episode_memory s)"
    by (elim exE conjE)
  let ?s2 = "s\<lparr>curr_step := curr_step s + 1, action_episode_memory := am\<rparr>"
  have rew: "GreaterThanZeroEnv_get_reward ?s2 =
      Inr (if v > 0 then (if a = 1 then 1 else -1) else (if a = 1 then -1 else 1))"
    by (rule GreaterThanZeroEnv_get_reward_eq [where obss = obss and rest = rest and acts = acts])
       (simp_all add: am(2) obs assms(4,5))
  show ?thesis
    apply (rule exI [of _ am])
    apply (rule exI [of _ om])
    apply (simp only: GreaterThanZeroEnv_step_valid_aux [OF assms(1) am(1) assms(6) rew om(1)]
        am(2,3) om(2,3) simp_thms)
    done
qed

section \<open>One call of step in TwoInARowEnv\<close>

lemma TwoInARowEnv_get_obs_eq: "TwoInARowEnv_get_obs r = Inr [int (r mod 2)]"
  unfolding TwoInARowEnv_get_obs_def random_choice_def
  by (simp only: choice_zero_one list.simps if_False option.case)

lemma TwoInARowEnv_get_reward_eq:
  assumes "py_index (action_episode_memory s) (curr_episode s) = Some (acts @ [a])"
    and "py_index (obs_episode_memory s) (curr_episode s) = Some obss"
  shows "TwoInARowEnv_get_reward s =
           Inr (if length obss < 2 then (if a = 0 then 1 else -1)
                else if obss ! (length obss - 2) = obss ! (length obss - 1)
                     then (if a = 1 then 1 else -1)
                     else (if a = 0 then 1 else -1))"
proof (cases "length obss < 2")
  case True
  then show ?thesis
    unfolding TwoInARowEnv_get_reward_def
    by (simp only: assms option.case py_index_snoc_last if_True)
next
  case False
  then show ?thesis
    unfolding TwoInARowEnv_get_reward_def
    by (simp only: assms option.case py_index_snoc_last if_False Let_def
        py_last_two_index [OF False])
qed

lemma TwoInARowEnv_step_exhausted:
  "curr_step s \<ge> max_steps_per_episode s \<Longrightarrow>
     TwoInARowEnv_step a r s = (Inl (RuntimeError ''Episode is done''), s)"
  by (simp add: TwoInARowEnv_step_def)

lemma TwoInARowEnv_take_action_invalid:
  "a \<noteq> 0 \<Longrightarrow> a \<noteq> 1 \<Longrightarrow>
     TwoInARowEnv_take_action a = Inl (ValueError ''Invalid action '' a)"
  by (simp add: TwoInARowEnv_take_action_def)

lemma TwoInARowEnv_take_action_valid:
  "a = 0 \<or> a = 1 \<Longrightarrow> TwoInARowEnv_take_action a = Inr ()"
  by (auto simp add: TwoInARowEnv_take_action_def)

lemma TwoInARowEnv_step_invalid_aux:
  assumes "curr_step s < max_steps_per_episode s"
    and "py_append_at (action_episode_memory s) (curr_episode s) a = Some am"
    and "a \<noteq> 0" and "a \<noteq> 1"
  shows "TwoInARowEnv_step a r s =
            (Inl (ValueError ''Invalid action '' a),
             s\<lparr>curr_step := curr_step s + 1, action_episode_memory := am\<rparr>)"
  using assms(1,2)
  by (simp add: TwoInARowEnv_step_def TwoInARowEnv_take_action_invalid [OF assms(3,4)])

lemma TwoInARowEnv_step_invalid:
  assumes "curr_step s < max_steps_per_episode s"
    and "active_actions s = Some acts"
    and "a \<noteq> 0" and "a \<noteq> 1"
  shows "\<exists>am. TwoInARowEnv_step a r s =
            (Inl (ValueError ''Invalid action '' a),
             s\<lparr>curr_step := curr_step s + 1, action_episode_memory := am\<rparr>)
          \<and> py_index am (curr_episode s) = Some (acts @ [a])
          \<and> length am = length (action_episode_memory s)"
proof -
  have "py_index (action_episode_memory s) (curr_episode s) = Some acts"
    using assms(2) by (simp only: active_actions_def)
  from py_append_at_index [OF this, of a] obtain am where am:
    "py_append_at (action_episode_memory s) (curr_episode s) a = Some am"
    "py_index am (curr_episode s) = Some (acts @ [a])"
    "length am = length (action_episode_memory s)"
    by (elim exE conjE)
  show ?thesis
    by (rule exI [of _ am])
       (simp only: TwoInARowEnv_step_invalid_aux [OF assms(1) am(1) assms(3,4)] am(2,3) simp_thms)
qed

lemma TwoInARowEnv_step_valid_aux:
  assumes "curr_step s < max_steps_per_episode s"
    and "py_append_at (action_episode_memory s) (curr_episode s) a = Some am"
    and "a = 0 \<or> a = 1"
    and "TwoInARowEnv_get_reward
           (s\<lparr>curr_step := curr_step s + 1, action_episode_memory := am\<rparr>) = Inr rew"
    and "py_append_at (obs_episode_memory s) (curr_episode s) [int (r mod 2)] = Some om"
  shows "TwoInARowEnv_step a r s =
            (Inr ([int (r mod 2)], rew, curr_step s + 1 \<ge> max_steps_per_episode s, []),
             s\<lparr>curr_step := curr_step s + 1, action_episode_memory := am,
               obs_episode_memory := om\<rparr>)"
  using assms(1,2,4,5)
  by (simp add: TwoInARowEnv_step_def TwoInARowEnv_take_action_valid [OF assms(3)]
      TwoInARowEnv_get_obs_eq TwoInARowEnv_step_reset_def)

lemma TwoInARowEnv_step_valid:
  assumes "curr_step s < max_steps_per_episode s"
    and "active_actions s = Some acts"
    and "active_observations s = Some obss"
    and "a = 0 \<or> a = 1"
  shows "\<exists>am om. TwoInARowEnv_step a r s =
            (Inr ([int (r mod 2)],
                  (if length obss < 2 then (if a = 0 then 1 else -1)
                   else if obss ! (length obss - 2) = obss ! (length obss - 1)
                        then (if a = 1 then 1 else -1)
                        else (if a = 0 then 1 else -1)),
                  curr_step s + 1 \<ge> max_steps_per_episode s, []),
             s\<lparr>curr_step := curr_step s + 1, action_episode_memory := am,
               obs_episode_memory := om\<rparr>)
          \<and> py_index am (curr_episode s) = Some (acts @ [a])
          \<and> length am = length (action_episode_memory s)
          \<and> py_index om (curr_episode s) = Some (obss @ [[int (r mod 2)]])
          \<and> length om = length (obs_episode_memory s)"
proof -
  have "py_index (action_episode_memory s) (curr_episode s) = Some acts"
    using assms(2) by (simp only: active_actions_def)
  from py_append_at_index [OF this, of a] obtain am where am:
    "py_append_at (action_episode_memory s) (curr_episode s) a = Some am"
    "py_index am (curr_episode s) = Some (acts @ [a])"
    "length am = length (action_episode_memory s)"
    by (elim exE conjE)
  have obs: "py_index (obs_episode_memory s) (curr_episode s) = Some obss"
    using assms(3) by (simp only: active_observations_def)
  from py_append_at_index [OF obs, of "[int (r mod 2)]"] obtain om where om:
    "py_append_at (obs_episode_memory s) (curr_episode s) [int (r mod 2)] = Some om"
    "py_index om (curr_episode s) = Some (obss @ [[int (r mod 2)]])"
    "length om = length (obs_episode_memory s)"
    by (elim exE conjE)
  let ?s2 = "s\<lparr>curr_step := curr_step s + 1, action_episode_memory := am\<rparr>"
  have rew: "TwoInARowEnv_get_reward ?s2 =
      Inr (if length obss < 2 then (if a = 0 then 1 else -1)
                   else if obss ! (length obss - 2) = obss ! (length obss - 1)
                        then (if a = 1 then 1 else -1)
                        else (if a = 0 then 1 else -1))"
    by (rule TwoInARowEnv_get_reward_eq [where acts = acts])
       (simp_all add: am(2) obs)
  show ?thesis
    apply (rule exI [of _ am])
    apply (rule exI [of _ om])
    apply (simp only: TwoInARowEnv_step_valid_aux [OF assms(1) am(1) assms(4) rew om(1)]
        am(2,3) om(2,3) simp_thms)
    done
qed

section \<open>What every call keeps\<close>

lemma GreaterThanZeroEnv_step_frame:
  "max_steps_per_episode (snd (GreaterThanZeroEnv_step a x s)) = max_steps_per_episode s"
  "curr_episode (snd (GreaterThanZeroEnv_step a x s)) = curr_episode s"
  by (simp_all add: GreaterThanZeroEnv_step_def Let_def GreaterThanZeroEnv_step_reset_def
      split: option.split sum.split)

lemma GreaterThanZeroEnv_step_lengths:
  "length (action_episode_memory (snd (GreaterThanZeroEnv_step a x s))) =
     length (action_episode_memory s)"
  "length (obs_episode_memory (snd (GreaterThanZeroEnv_step a x s))) =
     length (obs_episode_memory s)"
  by (auto simp add: GreaterThanZeroEnv_step_def Let_def GreaterThanZeroEnv_step_reset_def
      split: option.split sum.split dest: py_append_at_length)

lemma GreaterThanZeroEnv_step_counter:
  "curr_step (snd (GreaterThanZeroEnv_step a x s)) =
     (if curr_step s \<ge> max_steps_per_episode s then curr_step s else curr_step s + 1)"
  by (simp add: GreaterThanZeroEnv_step_def Let_def GreaterThanZeroEnv_step_reset_def
      split: option.split sum.split)


lemma TwoInARowEnv_step_frame:
  "max_steps_per_episode (snd (TwoInARowEnv_step a r s)) = max_steps_per_episode s"
  "curr_episode (snd (TwoInARowEnv_step a r s)) = curr_episode s"
  by (simp_all add: TwoInARowEnv_step_def Let_def TwoInARowEnv_step_reset_def
      split: option.split sum.split)

lemma TwoInARowEnv_step_lengths:
  "length (action_episode_memory (snd (TwoInARowEnv_step a r s))) =
     length (action_episode_memory s)"
  "length (obs_episode_memory (snd (TwoInARowEnv_step a r s))) =
     length (obs_episode_memory s)"
  by (auto simp add: TwoInARowEnv_step_def Let_def TwoInARowEnv_step_reset_def
      split: option.split sum.split dest: py_append_at_length)

lemma TwoInARowEnv_step_counter:
  "curr_step (snd (TwoInARowEnv_step a r s)) =
     (if curr_step s \<ge> max_steps_per_episode s then curr_step s else curr_step s + 1)"
  by (simp add: TwoInARowEnv_step_def Let_def TwoInARowEnv_step_reset_def
      split: option.split sum.split)

lemma GreaterThanZeroEnv_reset_eq:
  "GreaterThanZeroEnv_reset x s =
     ([x], s\<lparr>curr_step := 0, curr_episode := curr_episode s + 1,
             action_episode_memory := action_episode_memory s @ [[]],
             obs_episode_memory := obs_episode_memory s @ [[[x]]]\<rparr>)"
  by (simp add: GreaterThanZeroEnv_reset_def Let_def)

lemma TwoInARowEnv_reset_eq:
  "TwoInARowEnv_reset r s =
     (Inr [int (r mod 2)],
      s\<lparr>curr_step := 0, curr_episode := curr_episode s + 1,
        action_episode_memory := action_episode_memory s @ [[]],
        obs_episode_memory := obs_episode_memory s @ [[[int (r mod 2)]]]\<rparr>)"
  by (simp add: TwoInARowEnv_reset_def TwoInARowEnv_get_obs_eq)

lemma py_index_appended: "i = int (length xss) \<Longrightarrow> py_index (xss @ [ys]) i = Some ys"
  by (simp add: py_index_def)

lemma episode_indexed_GreaterThanZeroEnv_init: "episode_indexed (GreaterThanZeroEnv_init n)"
  by (simp add: episode_indexed_def GreaterThanZeroEnv_init_def)

lemma episode_indexed_TwoInARowEnv_init: "episode_indexed (TwoInARowEnv_init n)"
  by (simp add: episode_indexed_def TwoInARowEnv_init_def)

lemma episode_indexed_GreaterThanZeroEnv_call:
  "episode_indexed s \<Longrightarrow> episode_indexed (GreaterThanZeroEnv_call c s)"
proof (cases c)
  case (Reset x)
  assume "episode_indexed s"
  then show ?thesis
    by (simp add: Reset GreaterThanZeroEnv_reset_eq episode_indexed_def)
next
  case (Step a x)
  assume "episode_indexed s"
  then show ?thesis
    by (simp add: Step episode_indexed_def GreaterThanZeroEnv_step_frame
        GreaterThanZeroEnv_step_lengths)
qed

lemma episode_indexed_TwoInARowEnv_call:
  "episode_indexed s \<Longrightarrow> episode_indexed (TwoInARowEnv_call c s)"
proof (cases c)
  case (Reset x)
  assume "episode_indexed s"
  then show ?thesis
    by (simp add: Reset TwoInARowEnv_reset_eq episode_indexed_def)
next
  case (Step a x)
  assume "episode_indexed s"
  then show ?thesis
    by (simp add: Step episode_indexed_def TwoInARowEnv_step_frame
        TwoInARowEnv_step_lengths)
qed

lemma episode_indexed_GreaterThanZeroEnv_run:
  "episode_indexed s \<Longrightarrow> episode_indexed (GreaterThanZeroEnv_run calls s)"
  unfolding GreaterThanZeroEnv_run_def
  by (induction calls arbitrary: s) (simp_all add: episode_indexed_GreaterThanZeroEnv_call)

lemma episode_indexed_TwoInARowEnv_run:
  "episode_indexed s \<Longrightarrow> episode_indexed (TwoInARowEnv_run calls s)"
  unfolding TwoInARowEnv_run_def
  by (induction calls arbitrary: s) (simp_all add: episode_indexed_TwoInARowEnv_call)

lemma GreaterThanZeroEnv_reset_active:
  assumes "episode_indexed s"
  shows "active_actions (snd (GreaterThanZeroEnv_reset x s)) = Some []"
    and "active_observations (snd (GreaterThanZeroEnv_reset x s)) = Some [[x]]"
  using assms
  by (simp_all add: GreaterThanZeroEnv_reset_eq active_actions_def active_observations_def
      episode_indexed_def py_index_appended)

lemma TwoInARowEnv_reset_active:
  assumes "episode_indexed s"
  shows "active_actions (snd (TwoInARowEnv_reset r s)) = Some []"
    and "active_observations (snd (TwoInARowEnv_reset r s)) = Some [[int (r mod 2)]]"
  using assms
  by (simp_all add: TwoInARowEnv_reset_eq active_actions_def active_observations_def
      episode_indexed_def py_index_appended)

section \<open>Consecutive successful steps\<close>

lemma GreaterThanZeroEnv_steps_valid:
  assumes "active_actions s = Some acts"
    and "active_observations s = Some obss"
    and "obss \<noteq> []" and "last obss \<noteq> []"
    and "set (map fst steps) \<subseteq> {0, 1}"
    and "curr_step s + int (length steps) \<le> max_steps_per_episode s"
  shows "\<exists>ress s'. GreaterThanZeroEnv_steps steps s = (Inr ress, s')
           \<and> active_actions s' = Some (acts @ map fst steps)
           \<and> active_observations s' = Some (obss @ map (\<lambda>p. [snd p]) steps)
           \<and> curr_step s' = curr_step s + int (length steps)
           \<and> max_steps_per_episode s' = max_steps_per_episode s
           \<and> curr_episode s' = curr_episode s
           \<and> map done_flag ress =
               map (\<lambda>i. curr_step s + int i + 1 = max_steps_per_episode s) [0..<length steps]"
  using assms
proof (induction steps arbitrary: s acts obss)
  case Nil
  then show ?case by simp
next
  case (Cons p rest)
  obtain a x where p: "p = (a, x)" by (cases p)
  have a: "a = 0 \<or> a = 1" using Cons.prems(5) by (simp add: p)
  have lt: "curr_step s < max_steps_per_episode s" using Cons.prems(6) by simp
  obtain v vs where last: "last obss = v # vs"
    using Cons.prems(4) by (cases "last obss") simp_all
  from GreaterThanZeroEnv_step_valid [OF lt Cons.prems(1,2,3) last a, of x]
  obtain am om rew where st:
    "GreaterThanZeroEnv_step a x s =
       (Inr ([x], rew, curr_step s + 1 \<ge> max_steps_per_episode s, []),
        s\<lparr>curr_step := curr_step s + 1, action_episode_memory := am,
          obs_episode_memory := om\<rparr>)"
    "py_index am (curr_episode s) = Some (acts @ [a])"
    "py_index om (curr_episode s) = Some (obss @ [[x]])"
    by blast
  let ?s1 = "s\<lparr>curr_step := curr_step s + 1, action_episode_memory := am,
          obs_episode_memory := om\<rparr>"
  have s1: "active_actions ?s1 = Some (acts @ [a])"
    "active_observations ?s1 = Some (obss @ [[x]])"
    "obss @ [[x]] \<noteq> []" "last (obss @ [[x]]) \<noteq> []"
    "set (map fst rest) \<subseteq> {0, 1}"
    "curr_step ?s1 + int (length rest) \<le> max_steps_per_episode ?s1"
    using st(2,3) Cons.prems(5,6)
    by (simp_all add: active_actions_def active_observations_def)
  from Cons.IH [OF s1] obtain ress s' where IH:
    "GreaterThanZeroEnv_steps rest ?s1 = (Inr ress, s')"
    "active_actions s' = Some ((acts @ [a]) @ map fst rest)"
    "active_observations s' = Some ((obss @ [[x]]) @ map (\<lambda>p. [snd p]) rest)"
    "curr_step s' = curr_step ?s1 + int (length rest)"
    "max_steps_per_episode s' = max_steps_per_episode ?s1"
    "curr_episode s' = curr_episode ?s1"
    "map done_flag ress =
       map (\<lambda>i. curr_step ?s1 + int i + 1 = max_steps_per_episode ?s1) [0..<length rest]"
    by blast
  let ?res = "([x], rew, curr_step s + 1 \<ge> max_steps_per_episode s, [])"
  have run: "GreaterThanZeroEnv_steps (p # rest) s = (Inr (?res # ress), s')"
    by (simp add: p st(1) IH(1))
  have d0: "done_flag ?res = (curr_step s + int 0 + 1 = max_steps_per_episode s)"
    using lt by (auto simp add: done_flag_def)
  have dones: "map done_flag (?res # ress) =
       map (\<lambda>i. curr_step s + int i + 1 = max_steps_per_episode s) [0..<length (p # rest)]"
    unfolding list.map d0 using IH(7)
    by (simp add: map_upt_Suc add.commute add.left_commute del: upt_Suc)
  show ?case
    apply (rule exI [of _ "?res # ress"])
    apply (rule exI [of _ s'])
    using run dones IH(2,3,4,5,6)
    apply (simp add: p del: upt_Suc)
    done
qed


lemma TwoInARowEnv_steps_valid:
  assumes "active_actions s = Some acts"
    and "active_observations s = Some obss"
    and "set (map fst steps) \<subseteq> {0, 1}"
    and "curr_step s + int (length steps) \<le> max_steps_per_episode s"
  shows "\<exists>ress s'. TwoInARowEnv_steps steps s = (Inr ress, s')
           \<and> active_actions s' = Some (acts @ map fst steps)
           \<and> active_observations s' = Some (obss @ map (\<lambda>p. [int (snd p mod 2)]) steps)
           \<and> curr_step s' = curr_step s + int (length steps)
           \<and> max_steps_per_episode s' = max_steps_per_episode s
           \<and> curr_episode s' = curr_episode s
           \<and> map done_flag ress =
               map (\<lambda>i. curr_step s + int i + 1 = max_steps_per_episode s) [0..<length steps]"
  using assms
proof (induction steps arbitrary: s acts obss)
  case Nil
  then show ?case by simp
next
  case (Cons p rest)
  obtain a r where p: "p = (a, r)" by (cases p)
  have a: "a = 0 \<or> a = 1" using Cons.prems(3) by (simp add: p)
  have lt: "curr_step s < max_steps_per_episode s" using Cons.prems(4) by simp
  from TwoInARowEnv_step_valid [OF lt Cons.prems(1,2) a, of r]
  obtain am om rew where st:
    "TwoInARowEnv_step a r s =
       (Inr ([int (r mod 2)], rew, curr_step s + 1 \<ge> max_steps_per_episode s, []),
        s\<lparr>curr_step := curr_step s + 1, action_episode_memory := am,
          obs_episode_memory := om\<rparr>)"
    "py_index am (curr_episode s) = Some (acts @ [a])"
    "py_index om (curr_episode s) = Some (obss @ [[int (r mod 2)]])"
    by blast
  let ?s1 = "s\<lparr>curr_step := curr_step s + 1, action_episode_memory := am,
          obs_episode_memory := om\<rparr>"
  have s1: "active_actions ?s1 = Some (acts @ [a])"
    "active_observations ?s1 = Some (obss @ [[int (r mod 2)]])"
    "set (map fst rest) \<subseteq> {0, 1}"
    "curr_step ?s1 + int (length rest) \<le> max_steps_per_episode ?s1"
    using st(2,3) Cons.prems(3,4)
    by (simp_all add: active_actions_def active_observations_def)
  from Cons.IH [OF s1] obtain ress s' where IH:
    "TwoInARowEnv_steps rest ?s1 = (Inr ress, s')"
    "active_actions s' = Some ((acts @ [a]) @ map fst rest)"
    "active_observations s' =
       Some ((obss @ [[int (r mod 2)]]) @ map (\<lambda>p. [int (snd p mod 2)]) rest)"
    "curr_step s' = curr_step ?s1 + int (length rest)"
    "max_steps_per_episode s' = max_steps_per_episode ?s1"
    "curr_episode s' = curr_episode ?s1"
    "map done_flag ress =
       map (\<lambda>i. curr_step ?s1 + int i + 1 = max_steps_per_episode ?s1) [0..<length rest]"
    by blast
  let ?res = "([int (r mod 2)], rew, curr_step s + 1 \<ge> max_steps_per_episode s, [])"
  have run: "TwoInARowEnv_steps (p # rest) s = (Inr (?res # ress), s')"
    by (simp add: p st(1) IH(1))
  have d0: "done_flag ?res = (curr_step s + int 0 + 1 = max_steps_per_episode s)"
    using lt by (auto simp add: done_flag_def)
  have dones: "map done_flag (?res # ress) =
       map (\<lambda>i. curr_step s + int i + 1 = max_steps_per_episode s) [0..<length (p # rest)]"
    unfolding list.map d0 using IH(7)
    by (simp add: map_upt_Suc add.commute add.left_commute del: upt_Suc)
  show ?case
    apply (rule exI [of _ "?res # ress"])
    apply (rule exI [of _ s'])
    using run dones IH(2,3,4,5,6)
    apply (simp add: p del: upt_Suc)
    done
qed

section \<open>The done flag and the exhausted episode\<close>

lemma GreaterThanZeroEnv_step_done:
  assumes "GreaterThanZeroEnv_step a x s = (Inr res, s')"
  shows "curr_step s < max_steps_per_episode s"
    and "done_flag res = (curr_step s + 1 \<ge> max_steps_per_episode s)"
  using assms
  by (auto simp add: GreaterThanZeroEnv_step_def Let_def done_flag_def
      split: if_splits option.splits sum.splits)

lemma TwoInARowEnv_step_done:
  assumes "TwoInARowEnv_step a r s = (Inr res, s')"
  shows "curr_step s < max_steps_per_episode s"
    and "done_flag res = (curr_step s + 1 \<ge> max_steps_per_episode s)"
  using assms
  by (auto simp add: TwoInARowEnv_step_def Let_def done_flag_def
      split: if_splits option.splits sum.splits)

lemma GreaterThanZeroEnv_done_exhausted:
  assumes "GreaterThanZeroEnv_step a x s = (Inr res, s')" and "done_flag res"
  shows "curr_step s' \<ge> max_steps_per_episode s'"
proof -
  have s': "s' = snd (GreaterThanZeroEnv_step a x s)" using assms(1) by simp
  show ?thesis
    using GreaterThanZeroEnv_step_done [OF assms(1)] assms(2)
    by (simp add: s' GreaterThanZeroEnv_step_counter GreaterThanZeroEnv_step_frame)
qed

lemma TwoInARowEnv_done_exhausted:
  assumes "TwoInARowEnv_step a r s = (Inr res, s')" and "done_flag res"
  shows "curr_step s' \<ge> max_steps_per_episode s'"
proof -
  have s': "s' = snd (TwoInARowEnv_step a r s)" using assms(1) by simp
  show ?thesis
    using TwoInARowEnv_step_done [OF assms(1)] assms(2)
    by (simp add: s' TwoInARowEnv_step_counter TwoInARowEnv_step_frame)
qed

section \<open>Evaluation at concrete inputs\<close>

lemmas GreaterThanZeroEnv_eval =
  GreaterThanZeroEnv_step_def GreaterThanZeroEnv_reset_def GreaterThanZeroEnv_init_def
  GreaterThanZeroEnv_take_action_def GreaterThanZeroEnv_get_reward_def
  GreaterThanZeroEnv_get_obs_def GreaterThanZeroEnv_step_reset_def
  py_index_def py_append_at_def Let_def

lemmas TwoInARowEnv_eval =
  TwoInARowEnv_step_def TwoInARowEnv_reset_def TwoInARowEnv_init_def
  TwoInARowEnv_take_action_def TwoInARowEnv_get_reward_def
  TwoInARowEnv_get_obs_eq TwoInARowEnv_step_reset_def
  py_index_def py_append_at_def py_last_two_def Let_def

section \<open>The claims\<close>

text \<open>
  Claim C4. Once the current episode has reached \<open>max_steps_per_episode\<close> steps, every
  further call of \<open>step\<close>, whatever the action, raises \<open>RuntimeError("Episode is done")\<close>
  (the specification's EpisodeExhausted) and returns the state it was given, with every
  field as it was. This is the case in particular in the state left by a call of \<open>step\<close>
  that returned \<open>done = True\<close>. Both environments.
\<close>

theorem C4_step_after_done_raises:
  fixes s sp :: "real list env" and t tp :: "int list env"
  shows "(max_steps_per_episode s \<le> curr_step s \<longrightarrow>
            GreaterThanZeroEnv_step a x s = (Inl (RuntimeError ''Episode is done''), s))
       \<and> (max_steps_per_episode t \<le> curr_step t \<longrightarrow>
            TwoInARowEnv_step a r t = (Inl (RuntimeError ''Episode is done''), t))
       \<and> (GreaterThanZeroEnv_step b y sp = (Inr res, s) \<and> done_flag res \<longrightarrow>
            GreaterThanZeroEnv_step a x s = (Inl (RuntimeError ''Episode is done''), s))
       \<and> (TwoInARowEnv_step b q tp = (Inr res', t) \<and> done_flag res' \<longrightarrow>
            TwoInARowEnv_step a r t = (Inl (RuntimeError ''Episode is done''), t))"
  using GreaterThanZeroEnv_step_exhausted [of s a x] TwoInARowEnv_step_exhausted [of t a r]
    GreaterThanZeroEnv_done_exhausted [of b y sp res s]
    TwoInARowEnv_done_exhausted [of b q tp res' t]
  by blast

theorem C4_step_after_done_raises_witness:
  "GreaterThanZeroEnv_step 1 (3/10) (snd (GreaterThanZeroEnv_reset (1/2) (GreaterThanZeroEnv_init 1)))
     = (Inr ([3/10], 1, True, []),
        snd (GreaterThanZeroEnv_step 1 (3/10)
              (snd (GreaterThanZeroEnv_reset (1/2) (GreaterThanZeroEnv_init 1)))))
   \<and> GreaterThanZeroEnv_step 0 (1/10)
        (snd (GreaterThanZeroEnv_step 1 (3/10)
              (snd (GreaterThanZeroEnv_reset (1/2) (GreaterThanZeroEnv_init 1)))))
     = (Inl (RuntimeError ''Episode is done''),
        snd (GreaterThanZeroEnv_step 1 (3/10)
              (snd (GreaterThanZeroEnv_reset (1/2) (GreaterThanZeroEnv_init 1)))))
   \<and> max_steps_per_episode
        (snd (GreaterThanZeroEnv_step 1 (3/10)
              (snd (GreaterThanZeroEnv_reset (1/2) (GreaterThanZeroEnv_init 1)))))
       \<le> curr_step
        (snd (GreaterThanZeroEnv_step 1 (3/10)
              (snd (GreaterThanZeroEnv_reset (1/2) (GreaterThanZeroEnv_init 1)))))
   \<and> max_steps_per_episode
        (snd (TwoInARowEnv_step 0 5 (snd (TwoInARowEnv_reset 4 (TwoInARowEnv_init 1)))))
       \<le> curr_step
        (snd (TwoInARowEnv_step 0 5 (snd (TwoInARowEnv_reset 4 (TwoInARowEnv_init 1)))))
   \<and> done_flag (([3/10], 1, True, []) :: real list step_result)
   \<and> done_flag (([1], 1, True, []) :: int list step_result)
   \<and> TwoInARowEnv_step 0 5 (snd (TwoInARowEnv_reset 4 (TwoInARowEnv_init 1)))
     = (Inr ([1], 1, True, []),
        snd (TwoInARowEnv_step 0 5 (snd (TwoInARowEnv_reset 4 (TwoInARowEnv_init 1)))))
   \<and> TwoInARowEnv_step 7 2
        (snd (TwoInARowEnv_step 0 5 (snd (TwoInARowEnv_reset 4 (TwoInARowEnv_init 1)))))
     = (Inl (RuntimeError ''Episode is done''),
        snd (TwoInARowEnv_step 0 5 (snd (TwoInARowEnv_reset 4 (TwoInARowEnv_init 1)))))"
proof -
  let ?sa = "snd (GreaterThanZeroEnv_reset (1/2) (GreaterThanZeroEnv_init 1))"
  let ?s = "snd (GreaterThanZeroEnv_step 1 (3/10) ?sa)"
  let ?ta = "snd (TwoInARowEnv_reset 4 (TwoInARowEnv_init 1))"
  let ?t = "snd (TwoInARowEnv_step 0 5 ?ta)"
  have g: "GreaterThanZeroEnv_step 1 (3/10) ?sa = (Inr ([3/10], 1, True, []), ?s)"
    by (simp add: GreaterThanZeroEnv_eval)
  have gd: "done_flag (([3/10], 1, True, []) :: real list step_result)"
    by (simp add: done_flag_def)
  have ge: "max_steps_per_episode ?s \<le> curr_step ?s"
    by (simp add: GreaterThanZeroEnv_eval)
  have p: "TwoInARowEnv_step 0 5 ?ta = (Inr ([1], 1, True, []), ?t)"
    by (simp add: TwoInARowEnv_eval)
  have pd: "done_flag (([1], 1, True, []) :: int list step_result)"
    by (simp add: done_flag_def)
  have pe: "max_steps_per_episode ?t \<le> curr_step ?t"
    by (simp add: TwoInARowEnv_eval)
  show ?thesis
    using g gd ge p pd pe
      C4_step_after_done_raises [where s = ?s and a = 0 and x = "1/10"
        and t = ?t and r = 2 and b = 1 and y = "3/10" and sp = ?sa
        and res = "([3/10], 1, True, [])" and q = 5 and tp = ?ta
        and res' = "([1], 1, True, [])"]
      C4_step_after_done_raises [where t = ?t and a = 7 and r = 2
        and s = ?s and x = "1/10" and b = 1 and y = "3/10" and sp = ?sa
        and res = "([3/10], 1, True, [])" and q = 5 and tp = ?ta
        and res' = "([1], 1, True, [])"]
    by blast
qed

subsection \<open>The step counter stays within the limit\<close>

lemma GreaterThanZeroEnv_call_bounded:
  assumes "0 \<le> curr_step s" and "curr_step s \<le> max_steps_per_episode s"
  shows "0 \<le> curr_step (GreaterThanZeroEnv_call c s)"
    and "curr_step (GreaterThanZeroEnv_call c s) \<le> max_steps_per_episode (GreaterThanZeroEnv_call c s)"
  using assms
  by (cases c; simp add: GreaterThanZeroEnv_reset_eq GreaterThanZeroEnv_step_counter
      GreaterThanZeroEnv_step_frame)+

lemma GreaterThanZeroEnv_call_max:
  "max_steps_per_episode (GreaterThanZeroEnv_call c s) = max_steps_per_episode s"
  by (cases c) (simp_all add: GreaterThanZeroEnv_reset_eq GreaterThanZeroEnv_step_frame)

lemma TwoInARowEnv_call_bounded:
  assumes "0 \<le> curr_step s" and "curr_step s \<le> max_steps_per_episode s"
  shows "0 \<le> curr_step (TwoInARowEnv_call c s)"
    and "curr_step (TwoInARowEnv_call c s) \<le> max_steps_per_episode (TwoInARowEnv_call c s)"
  using assms
  by (cases c; simp add: TwoInARowEnv_reset_eq TwoInARowEnv_step_counter
      TwoInARowEnv_step_frame)+

lemma TwoInARowEnv_call_max:
  "max_steps_per_episode (TwoInARowEnv_call c s) = max_steps_per_episode s"
  by (cases c) (simp_all add: TwoInARowEnv_reset_eq TwoInARowEnv_step_frame)

lemma GreaterThanZeroEnv_run_max:
  "max_steps_per_episode (GreaterThanZeroEnv_run calls s) = max_steps_per_episode s"
  unfolding GreaterThanZeroEnv_run_def
  by (induction calls arbitrary: s) (simp_all add: GreaterThanZeroEnv_call_max)

lemma TwoInARowEnv_run_max:
  "max_steps_per_episode (TwoInARowEnv_run calls s) = max_steps_per_episode s"
  unfolding TwoInARowEnv_run_def
  by (induction calls arbitrary: s) (simp_all add: TwoInARowEnv_call_max)

lemma GreaterThanZeroEnv_run_bounded:
  assumes "0 \<le> curr_step s" and "curr_step s \<le> max_steps_per_episode s"
  shows "0 \<le> curr_step (GreaterThanZeroEnv_run calls s) \<and>
         curr_step (GreaterThanZeroEnv_run calls s)
           \<le> max_steps_per_episode (GreaterThanZeroEnv_run calls s)"
  using assms unfolding GreaterThanZeroEnv_run_def
proof (induction calls arbitrary: s)
  case Nil
  then show ?case by simp
next
  case (Cons c calls)
  show ?case
    using Cons.IH [OF GreaterThanZeroEnv_call_bounded [OF Cons.prems, of c]] by simp
qed

lemma TwoInARowEnv_run_bounded:
  assumes "0 \<le> curr_step s" and "curr_step s \<le> max_steps_per_episode s"
  shows "0 \<le> curr_step (TwoInARowEnv_run calls s) \<and>
         curr_step (TwoInARowEnv_run calls s)
           \<le> max_steps_per_episode (TwoInARowEnv_run calls s)"
  using assms unfolding TwoInARowEnv_run_def
proof (induction calls arbitrary: s)
  case Nil
  then show ?case by simp
next
  case (Cons c calls)
  show ?case
    using Cons.IH [OF TwoInARowEnv_call_bounded [OF Cons.prems, of c]] by simp
qed

text \<open>
  Claim C10. Start either environment with \<open>max_steps_per_episode = n\<close>, \<open>n \<ge> 0\<close>, and
  make any sequence of \<open>reset\<close> and \<open>step\<close> calls, going on after the calls that raise.
  Then \<open>0 \<le> curr_step \<le> max_steps_per_episode\<close> holds in the state reached, and
  \<open>max_steps_per_episode\<close> is still \<open>n\<close>.
\<close>

theorem C10_step_counter_within_limit:
  assumes "0 \<le> n"
  shows "0 \<le> curr_step (GreaterThanZeroEnv_run gcalls (GreaterThanZeroEnv_init n))
       \<and> curr_step (GreaterThanZeroEnv_run gcalls (GreaterThanZeroEnv_init n)) \<le> n
       \<and> max_steps_per_episode (GreaterThanZeroEnv_run gcalls (GreaterThanZeroEnv_init n)) = n
       \<and> 0 \<le> curr_step (TwoInARowEnv_run tcalls (TwoInARowEnv_init n))
       \<and> curr_step (TwoInARowEnv_run tcalls (TwoInARowEnv_init n)) \<le> n
       \<and> max_steps_per_episode (TwoInARowEnv_run tcalls (TwoInARowEnv_init n)) = n"
proof -
  have g: "0 \<le> curr_step (GreaterThanZeroEnv_init n)"
    "curr_step (GreaterThanZeroEnv_init n) \<le> max_steps_per_episode (GreaterThanZeroEnv_init n)"
    using assms by (simp_all add: GreaterThanZeroEnv_init_def)
  have t: "0 \<le> curr_step (TwoInARowEnv_init n)"
    "curr_step (TwoInARowEnv_init n) \<le> max_steps_per_episode (TwoInARowEnv_init n)"
    using assms by (simp_all add: TwoInARowEnv_init_def)
  have gm: "max_steps_per_episode (GreaterThanZeroEnv_run gcalls (GreaterThanZeroEnv_init n)) = n"
    by (simp add: GreaterThanZeroEnv_run_max GreaterThanZeroEnv_init_def)
  have tm: "max_steps_per_episode (TwoInARowEnv_run tcalls (TwoInARowEnv_init n)) = n"
    by (simp add: TwoInARowEnv_run_max TwoInARowEnv_init_def)
  show ?thesis
    using GreaterThanZeroEnv_run_bounded [OF g, of gcalls]
      TwoInARowEnv_run_bounded [OF t, of tcalls] gm tm
    by simp
qed

theorem C10_step_counter_within_limit_witness:
  "(0::int) \<le> 2
   \<and> curr_step (GreaterThanZeroEnv_run
        [Step 0 (1/10), Reset (1/2), Step 5 (1/5), Step 1 (3/10), Step 0 (1/10), Step 1 (-1)]
        (GreaterThanZeroEnv_init 2)) = 2
   \<and> curr_step (GreaterThanZeroEnv_run
        [Step 0 (1/10), Reset (1/2), Step 5 (1/5), Step 1 (3/10), Step 0 (1/10), Step 1 (-1)]
        (GreaterThanZeroEnv_init 2)) \<le> 2
   \<and> curr_step (TwoInARowEnv_run
        [Step 0 3, Reset 4, Step 5 6, Step 1 7, Step 0 8, Reset 9, Step 1 2]
        (TwoInARowEnv_init 2)) = 1
   \<and> curr_step (TwoInARowEnv_run
        [Step 0 3, Reset 4, Step 5 6, Step 1 7, Step 0 8, Reset 9, Step 1 2]
        (TwoInARowEnv_init 2)) \<le> 2"
proof -
  have h: "(0::int) \<le> 2" by simp
  have g: "curr_step (GreaterThanZeroEnv_run
        [Step 0 (1/10), Reset (1/2), Step 5 (1/5), Step 1 (3/10), Step 0 (1/10), Step 1 (-1)]
        (GreaterThanZeroEnv_init 2)) = 2"
    by (simp add: GreaterThanZeroEnv_run_def GreaterThanZeroEnv_eval)
  have t: "curr_step (TwoInARowEnv_run
        [Step 0 3, Reset 4, Step 5 6, Step 1 7, Step 0 8, Reset 9, Step 1 2]
        (TwoInARowEnv_init 2)) = 1"
    by (simp add: TwoInARowEnv_run_def TwoInARowEnv_eval)
  show ?thesis
    using h g t
      C10_step_counter_within_limit [OF h,
        of "[Step 0 (1/10), Reset (1/2), Step 5 (1/5), Step 1 (3/10), Step 0 (1/10), Step 1 (-1)]"
           "[Step 0 3, Reset 4, Step 5 6, Step 1 7, Step 0 8, Reset 9, Step 1 2]"]
    by simp
qed

subsection \<open>An episode of successful steps after reset\<close>

lemma GreaterThanZeroEnv_fresh_episode:
  fixes n :: int and x0 :: real and calls :: "real call list"
  defines "s1 \<equiv> snd (GreaterThanZeroEnv_reset x0 (GreaterThanZeroEnv_run calls (GreaterThanZeroEnv_init n)))"
  shows "active_actions s1 = Some []"
    and "active_observations s1 = Some [[x0]]"
    and "curr_step s1 = 0"
    and "max_steps_per_episode s1 = n"
proof -
  have ei: "episode_indexed (GreaterThanZeroEnv_run calls (GreaterThanZeroEnv_init n))"
    by (rule episode_indexed_GreaterThanZeroEnv_run [OF episode_indexed_GreaterThanZeroEnv_init])
  show "active_actions s1 = Some []" "active_observations s1 = Some [[x0]]"
    unfolding s1_def by (rule GreaterThanZeroEnv_reset_active [OF ei])+
  show "curr_step s1 = 0"
    unfolding s1_def by (simp add: GreaterThanZeroEnv_reset_eq)
  show "max_steps_per_episode s1 = n"
    unfolding s1_def
    by (simp add: GreaterThanZeroEnv_reset_eq GreaterThanZeroEnv_run_max GreaterThanZeroEnv_init_def)
qed

lemma TwoInARowEnv_fresh_episode:
  fixes n :: int and r0 :: nat and calls :: "nat call list"
  defines "s1 \<equiv> snd (TwoInARowEnv_reset r0 (TwoInARowEnv_run calls (TwoInARowEnv_init n)))"
  shows "active_actions s1 = Some []"
    and "active_observations s1 = Some [[int (r0 mod 2)]]"
    and "curr_step s1 = 0"
    and "max_steps_per_episode s1 = n"
proof -
  have ei: "episode_indexed (TwoInARowEnv_run calls (TwoInARowEnv_init n))"
    by (rule episode_indexed_TwoInARowEnv_run [OF episode_indexed_TwoInARowEnv_init])
  show "active_actions s1 = Some []" "active_observations s1 = Some [[int (r0 mod 2)]]"
    unfolding s1_def by (rule TwoInARowEnv_reset_active [OF ei])+
  show "curr_step s1 = 0"
    unfolding s1_def by (simp add: TwoInARowEnv_reset_eq)
  show "max_steps_per_episode s1 = n"
    unfolding s1_def
    by (simp add: TwoInARowEnv_reset_eq TwoInARowEnv_run_max TwoInARowEnv_init_def)
qed

lemma GreaterThanZeroEnv_episode:
  assumes "set (map fst steps) \<subseteq> {0, 1}" and "int (length steps) \<le> n"
  shows "\<exists>ress s'.
           GreaterThanZeroEnv_steps steps
             (snd (GreaterThanZeroEnv_reset x0
                    (GreaterThanZeroEnv_run calls (GreaterThanZeroEnv_init n)))) = (Inr ress, s')
         \<and> active_actions s' = Some (map fst steps)
         \<and> active_observations s' = Some ([x0] # map (\<lambda>p. [snd p]) steps)
         \<and> curr_step s' = int (length steps)
         \<and> map done_flag ress = map (\<lambda>i. int i + 1 = n) [0..<length steps]"
proof -
  let ?s1 = "snd (GreaterThanZeroEnv_reset x0
                    (GreaterThanZeroEnv_run calls (GreaterThanZeroEnv_init n)))"
  note f = GreaterThanZeroEnv_fresh_episode [of x0 calls n]
  have b: "curr_step ?s1 + int (length steps) \<le> max_steps_per_episode ?s1"
    using assms(2) by (simp add: f(3,4))
  have ne: "[[x0]] \<noteq> []" "last [[x0]] \<noteq> []" by simp_all
  from GreaterThanZeroEnv_steps_valid [OF f(1) f(2) ne assms(1) b]
  show ?thesis by (simp add: f(3,4)) blast
qed

lemma TwoInARowEnv_episode:
  assumes "set (map fst steps) \<subseteq> {0, 1}" and "int (length steps) \<le> n"
  shows "\<exists>ress s'.
           TwoInARowEnv_steps steps
             (snd (TwoInARowEnv_reset r0
                    (TwoInARowEnv_run calls (TwoInARowEnv_init n)))) = (Inr ress, s')
         \<and> active_actions s' = Some (map fst steps)
         \<and> active_observations s' =
             Some ([int (r0 mod 2)] # map (\<lambda>p. [int (snd p mod 2)]) steps)
         \<and> curr_step s' = int (length steps)
         \<and> map done_flag ress = map (\<lambda>i. int i + 1 = n) [0..<length steps]"
proof -
  let ?s1 = "snd (TwoInARowEnv_reset r0
                    (TwoInARowEnv_run calls (TwoInARowEnv_init n)))"
  note f = TwoInARowEnv_fresh_episode [of r0 calls n]
  have b: "curr_step ?s1 + int (length steps) \<le> max_steps_per_episode ?s1"
    using assms(2) by (simp add: f(3,4))
  from TwoInARowEnv_steps_valid [OF f(1) f(2) assms(1) b]
  show ?thesis by (simp add: f(3,4)) blast
qed

text \<open>
  Claim C3. After a \<open>reset\<close>, in any state the environment can be in, make \<open>k\<close> calls of
  \<open>step\<close> with actions in \<open>{0, 1}\<close>, \<open>k \<le> max_steps_per_episode\<close>. Every call returns,
  the step count after the calls is \<open>k\<close>, and the \<open>done\<close> flag of call number \<open>i + 1\<close>
  (whose step count after the increment is \<open>i + 1\<close>) is true exactly when
  \<open>i + 1 = max_steps_per_episode\<close>: false on every earlier call. Both environments.
\<close>

theorem C3_done_exactly_at_limit:
  assumes "set (map fst gsteps) \<subseteq> {0, 1}" and "int (length gsteps) \<le> n"
    and "set (map fst tsteps) \<subseteq> {0, 1}" and "int (length tsteps) \<le> m"
  shows "(\<exists>ress s'.
            GreaterThanZeroEnv_steps gsteps
              (snd (GreaterThanZeroEnv_reset x0
                     (GreaterThanZeroEnv_run gcalls (GreaterThanZeroEnv_init n)))) = (Inr ress, s')
          \<and> curr_step s' = int (length gsteps)
          \<and> map done_flag ress = map (\<lambda>i. int i + 1 = n) [0..<length gsteps])
       \<and> (\<exists>ress t'.
            TwoInARowEnv_steps tsteps
              (snd (TwoInARowEnv_reset r0
                     (TwoInARowEnv_run tcalls (TwoInARowEnv_init m)))) = (Inr ress, t')
          \<and> curr_step t' = int (length tsteps)
          \<and> map done_flag ress = map (\<lambda>i. int i + 1 = m) [0..<length tsteps])"
  using GreaterThanZeroEnv_episode [OF assms(1,2), of x0 gcalls]
    TwoInARowEnv_episode [OF assms(3,4), of r0 tcalls]
  by blast


theorem C3_done_exactly_at_limit_witness:
  "set (map fst [(1, 3/10), (0, -1/5 :: real)]) \<subseteq> {0, 1 :: int}
   \<and> int (length [(1 :: int, 3/10), (0, -1/5 :: real)]) \<le> 2
   \<and> set (map fst [(0, 5), (1, 6 :: nat)]) \<subseteq> {0, 1 :: int}
   \<and> int (length [(0 :: int, 5), (1, 6 :: nat)]) \<le> 2
   \<and> fst (GreaterThanZeroEnv_steps [(1, 3/10), (0, -1/5)]
          (snd (GreaterThanZeroEnv_reset (1/2)
                 (GreaterThanZeroEnv_run [Reset 1, Step 0 2] (GreaterThanZeroEnv_init 2)))))
       = Inr [([3/10], 1, False, []), ([-1/5], -1, True, [])]
   \<and> fst (TwoInARowEnv_steps [(0, 5), (1, 6)]
          (snd (TwoInARowEnv_reset 4
                 (TwoInARowEnv_run [Reset 1, Step 0 2] (TwoInARowEnv_init 2)))))
       = Inr [([1], 1, False, []), ([0], -1, True, [])]"
proof -
  have h1: "set (map fst [(1, 3/10), (0, -1/5 :: real)]) \<subseteq> {0, 1 :: int}" by simp
  have h2: "int (length [(1 :: int, 3/10), (0, -1/5 :: real)]) \<le> 2" by simp
  have h3: "set (map fst [(0, 5), (1, 6 :: nat)]) \<subseteq> {0, 1 :: int}" by simp
  have h4: "int (length [(0 :: int, 5), (1, 6 :: nat)]) \<le> 2" by simp
  have g: "fst (GreaterThanZeroEnv_steps [(1, 3/10), (0, -1/5)]
          (snd (GreaterThanZeroEnv_reset (1/2)
                 (GreaterThanZeroEnv_run [Reset 1, Step 0 2] (GreaterThanZeroEnv_init 2)))))
       = Inr [([3/10], 1, False, []), ([-1/5], -1, True, [])]"
    by (simp add: GreaterThanZeroEnv_run_def GreaterThanZeroEnv_eval)
  have t: "fst (TwoInARowEnv_steps [(0, 5), (1, 6)]
          (snd (TwoInARowEnv_reset 4
                 (TwoInARowEnv_run [Reset 1, Step 0 2] (TwoInARowEnv_init 2)))))
       = Inr [([1], 1, False, []), ([0], -1, True, [])]"
    by (simp add: TwoInARowEnv_run_def TwoInARowEnv_eval)
  show ?thesis
    using h1 h2 h3 h4 g t
      C3_done_exactly_at_limit [OF h1 h2 h3 h4, of "1/2" "[Reset 1, Step 0 2]" 4 "[Reset 1, Step 0 2]"]
    by blast
qed

text \<open>
  Claim C2, as stated, fails. \<open>step\<close> appends the action to the action log before
  \<open>_take_action\<close> validates it, so a call that raises ValueError leaves its action in
  the log. After \<open>reset\<close>, the failed \<open>step(5)\<close> and the successful \<open>step(0)\<close>, the
  active record has two actions and two observations.
\<close>

theorem C2_failed_step_breaks_alignment:
  "fst (GreaterThanZeroEnv_step 5 (1/5)
         (snd (GreaterThanZeroEnv_reset (1/2) (GreaterThanZeroEnv_init 100))))
     = Inl (ValueError ''Invalid action '' 5)
   \<and> fst (GreaterThanZeroEnv_step 0 (3/10)
         (snd (GreaterThanZeroEnv_step 5 (1/5)
                (snd (GreaterThanZeroEnv_reset (1/2) (GreaterThanZeroEnv_init 100))))))
     = Inr ([3/10], -1, False, [])
   \<and> active_actions
        (snd (GreaterThanZeroEnv_step 0 (3/10)
               (snd (GreaterThanZeroEnv_step 5 (1/5)
                      (snd (GreaterThanZeroEnv_reset (1/2) (GreaterThanZeroEnv_init 100)))))))
     = Some [5, 0]
   \<and> active_observations
        (snd (GreaterThanZeroEnv_step 0 (3/10)
               (snd (GreaterThanZeroEnv_step 5 (1/5)
                      (snd (GreaterThanZeroEnv_reset (1/2) (GreaterThanZeroEnv_init 100)))))))
     = Some [[1/2], [3/10]]
   \<and> length [[1/2], [3/10 :: real]] \<noteq> length [5, 0 :: int] + 1"
  by (simp add: GreaterThanZeroEnv_eval active_actions_def active_observations_def)

lemma py_append_at_Some_index:
  "py_append_at xss i v = Some zss \<Longrightarrow>
     \<exists>ys. py_index xss i = Some ys \<and> py_index zss i = Some (ys @ [v])"
  by (auto simp: py_index_def py_append_at_def Let_def split: if_splits)

lemma GreaterThanZeroEnv_step_success_logs:
  assumes "GreaterThanZeroEnv_step a x s = (Inr res, s')"
  shows "\<exists>acts obss. active_actions s = Some acts \<and> active_observations s = Some obss
           \<and> active_actions s' = Some (acts @ [a])
           \<and> active_observations s' = Some (obss @ [[x]])"
proof -
  from assms obtain am om where s': 
    "py_append_at (action_episode_memory s) (curr_episode s) a = Some am"
    "py_append_at (obs_episode_memory s) (curr_episode s) [x] = Some om"
    "s' = s\<lparr>curr_step := curr_step s + 1, action_episode_memory := am,
            obs_episode_memory := om\<rparr>"
    by (auto simp add: GreaterThanZeroEnv_step_def Let_def GreaterThanZeroEnv_get_obs_def
        GreaterThanZeroEnv_step_reset_def split: if_splits option.splits sum.splits)
  from py_append_at_Some_index [OF s'(1)] py_append_at_Some_index [OF s'(2)]
  show ?thesis
    by (auto simp add: s'(3) active_actions_def active_observations_def)
qed

lemma TwoInARowEnv_step_success_logs:
  assumes "TwoInARowEnv_step a r s = (Inr res, s')"
  shows "\<exists>acts obss. active_actions s = Some acts \<and> active_observations s = Some obss
           \<and> active_actions s' = Some (acts @ [a])
           \<and> active_observations s' = Some (obss @ [[int (r mod 2)]])"
proof -
  from assms obtain am om where s': 
    "py_append_at (action_episode_memory s) (curr_episode s) a = Some am"
    "py_append_at (obs_episode_memory s) (curr_episode s) [int (r mod 2)] = Some om"
    "s' = s\<lparr>curr_step := curr_step s + 1, action_episode_memory := am,
            obs_episode_memory := om\<rparr>"
    by (auto simp add: TwoInARowEnv_step_def Let_def TwoInARowEnv_get_obs_eq
        TwoInARowEnv_step_reset_def split: if_splits option.splits sum.splits)
  from py_append_at_Some_index [OF s'(1)] py_append_at_Some_index [OF s'(2)]
  show ?thesis
    by (auto simp add: s'(3) active_actions_def active_observations_def)
qed

lemma GreaterThanZeroEnv_steps_success_logs:
  assumes "GreaterThanZeroEnv_steps steps s = (Inr ress, s')"
    and "active_actions s = Some acts" and "active_observations s = Some obss"
  shows "active_actions s' = Some (acts @ map fst steps)
       \<and> active_observations s' = Some (obss @ map (\<lambda>p. [snd p]) steps)
       \<and> length ress = length steps"
  using assms
proof (induction steps arbitrary: s acts obss ress)
  case Nil
  then show ?case by simp
next
  case (Cons p rest)
  obtain a x where p: "p = (a, x)" by (cases p)
  from Cons.prems(1) obtain res s1 ress1 where st:
    "GreaterThanZeroEnv_step a x s = (Inr res, s1)"
    "GreaterThanZeroEnv_steps rest s1 = (Inr ress1, s')"
    "ress = res # ress1"
    by (auto simp add: p split: prod.splits sum.splits)
  from GreaterThanZeroEnv_step_success_logs [OF st(1)] Cons.prems(2,3)
  have s1: "active_actions s1 = Some (acts @ [a])"
    "active_observations s1 = Some (obss @ [[x]])"
    by auto
  from Cons.IH [OF st(2) s1] show ?case
    by (simp add: p st(3))
qed

lemma TwoInARowEnv_steps_success_logs:
  assumes "TwoInARowEnv_steps steps s = (Inr ress, s')"
    and "active_actions s = Some acts" and "active_observations s = Some obss"
  shows "active_actions s' = Some (acts @ map fst steps)
       \<and> active_observations s' = Some (obss @ map (\<lambda>p. [int (snd p mod 2)]) steps)
       \<and> length ress = length steps"
  using assms
proof (induction steps arbitrary: s acts obss ress)
  case Nil
  then show ?case by simp
next
  case (Cons p rest)
  obtain a r where p: "p = (a, r)" by (cases p)
  from Cons.prems(1) obtain res s1 ress1 where st:
    "TwoInARowEnv_step a r s = (Inr res, s1)"
    "TwoInARowEnv_steps rest s1 = (Inr ress1, s')"
    "ress = res # ress1"
    by (auto simp add: p split: prod.splits sum.splits)
  from TwoInARowEnv_step_success_logs [OF st(1)] Cons.prems(2,3)
  have s1: "active_actions s1 = Some (acts @ [a])"
    "active_observations s1 = Some (obss @ [[int (r mod 2)]])"
    by auto
  from Cons.IH [OF st(2) s1] show ?case
    by (simp add: p st(3))
qed

text \<open>
  Claim C2, amended. Immediately after \<open>reset\<close>, and after every completed \<open>step\<close> of an
  episode in which every \<open>step\<close> call since the \<open>reset\<close> completed, the active episode
  record has one observation more than it has actions. First, after \<open>k\<close> consecutive
  calls of \<open>step\<close> with actions in \<open>{0, 1}\<close> since the last \<open>reset\<close>,
  \<open>k \<le> max_steps_per_episode\<close>, all \<open>k\<close> calls return, the action log is the \<open>k\<close>
  actions and the observation log is the initial observation and the \<open>k\<close> observations
  drawn. Second, whenever the \<open>step\<close> calls made since the \<open>reset\<close>, whatever their
  actions and their number, have all returned, the two logs are these, of lengths \<open>k\<close>
  and \<open>k + 1\<close> for the \<open>k\<close> calls. Both environments.
\<close>

theorem C2_logs_after_successful_steps:
  assumes "set (map fst gsteps) \<subseteq> {0, 1}" and "int (length gsteps) \<le> n"
    and "set (map fst tsteps) \<subseteq> {0, 1}" and "int (length tsteps) \<le> m"
  shows "(\<exists>ress s' acts obss.
            GreaterThanZeroEnv_steps gsteps
              (snd (GreaterThanZeroEnv_reset x0
                     (GreaterThanZeroEnv_run gcalls (GreaterThanZeroEnv_init n)))) = (Inr ress, s')
          \<and> length ress = length gsteps
          \<and> active_actions s' = Some acts \<and> active_observations s' = Some obss
          \<and> acts = map fst gsteps \<and> obss = [x0] # map (\<lambda>p. [snd p]) gsteps
          \<and> length acts = length gsteps \<and> length obss = length gsteps + 1
          \<and> length obss = length acts + 1)
       \<and> (\<exists>ress t' acts obss.
            TwoInARowEnv_steps tsteps
              (snd (TwoInARowEnv_reset r0
                     (TwoInARowEnv_run tcalls (TwoInARowEnv_init m)))) = (Inr ress, t')
          \<and> length ress = length tsteps
          \<and> active_actions t' = Some acts \<and> active_observations t' = Some obss
          \<and> acts = map fst tsteps
          \<and> obss = [int (r0 mod 2)] # map (\<lambda>p. [int (snd p mod 2)]) tsteps
          \<and> length acts = length tsteps \<and> length obss = length tsteps + 1
          \<and> length obss = length acts + 1)
       \<and> (GreaterThanZeroEnv_steps gany
              (snd (GreaterThanZeroEnv_reset x0
                     (GreaterThanZeroEnv_run gcalls (GreaterThanZeroEnv_init n)))) = (Inr gres, gs)
            \<longrightarrow>
            (\<exists>acts obss. active_actions gs = Some acts \<and> active_observations gs = Some obss
               \<and> acts = map fst gany \<and> obss = [x0] # map (\<lambda>p. [snd p]) gany
               \<and> length gres = length gany
               \<and> length acts = length gany \<and> length obss = length acts + 1))
       \<and> (TwoInARowEnv_steps tany
              (snd (TwoInARowEnv_reset r0
                     (TwoInARowEnv_run tcalls (TwoInARowEnv_init m)))) = (Inr tres, ts)
            \<longrightarrow>
            (\<exists>acts obss. active_actions ts = Some acts \<and> active_observations ts = Some obss
               \<and> acts = map fst tany
               \<and> obss = [int (r0 mod 2)] # map (\<lambda>p. [int (snd p mod 2)]) tany
               \<and> length tres = length tany
               \<and> length acts = length tany \<and> length obss = length acts + 1))"
proof -
  from GreaterThanZeroEnv_episode [OF assms(1,2), of x0 gcalls]
  obtain gress s' where g:
    "GreaterThanZeroEnv_steps gsteps
       (snd (GreaterThanZeroEnv_reset x0
              (GreaterThanZeroEnv_run gcalls (GreaterThanZeroEnv_init n)))) = (Inr gress, s')"
    "active_actions s' = Some (map fst gsteps)"
    "active_observations s' = Some ([x0] # map (\<lambda>p. [snd p]) gsteps)"
    "map done_flag gress = map (\<lambda>i. int i + 1 = n) [0..<length gsteps]"
    by blast
  have gl: "length gress = length gsteps"
    using arg_cong [OF g(4), of length] by simp
  from TwoInARowEnv_episode [OF assms(3,4), of r0 tcalls]
  obtain tress t' where t:
    "TwoInARowEnv_steps tsteps
       (snd (TwoInARowEnv_reset r0
              (TwoInARowEnv_run tcalls (TwoInARowEnv_init m)))) = (Inr tress, t')"
    "active_actions t' = Some (map fst tsteps)"
    "active_observations t' =
       Some ([int (r0 mod 2)] # map (\<lambda>p. [int (snd p mod 2)]) tsteps)"
    "map done_flag tress = map (\<lambda>i. int i + 1 = m) [0..<length tsteps]"
    by blast
  have tl: "length tress = length tsteps"
    using arg_cong [OF t(4), of length] by simp
  have first: "(\<exists>ress s' acts obss.
            GreaterThanZeroEnv_steps gsteps
              (snd (GreaterThanZeroEnv_reset x0
                     (GreaterThanZeroEnv_run gcalls (GreaterThanZeroEnv_init n)))) = (Inr ress, s')
          \<and> length ress = length gsteps
          \<and> active_actions s' = Some acts \<and> active_observations s' = Some obss
          \<and> acts = map fst gsteps \<and> obss = [x0] # map (\<lambda>p. [snd p]) gsteps
          \<and> length acts = length gsteps \<and> length obss = length gsteps + 1
          \<and> length obss = length acts + 1)
       \<and> (\<exists>ress t' acts obss.
            TwoInARowEnv_steps tsteps
              (snd (TwoInARowEnv_reset r0
                     (TwoInARowEnv_run tcalls (TwoInARowEnv_init m)))) = (Inr ress, t')
          \<and> length ress = length tsteps
          \<and> active_actions t' = Some acts \<and> active_observations t' = Some obss
          \<and> acts = map fst tsteps
          \<and> obss = [int (r0 mod 2)] # map (\<lambda>p. [int (snd p mod 2)]) tsteps
          \<and> length acts = length tsteps \<and> length obss = length tsteps + 1
          \<and> length obss = length acts + 1)"
    using g(1,2,3) gl t(1,2,3) tl by simp
  have gsecond: "GreaterThanZeroEnv_steps gany
              (snd (GreaterThanZeroEnv_reset x0
                     (GreaterThanZeroEnv_run gcalls (GreaterThanZeroEnv_init n)))) = (Inr gres, gs)
            \<longrightarrow>
            (\<exists>acts obss. active_actions gs = Some acts \<and> active_observations gs = Some obss
               \<and> acts = map fst gany \<and> obss = [x0] # map (\<lambda>p. [snd p]) gany
               \<and> length gres = length gany
               \<and> length acts = length gany \<and> length obss = length acts + 1)"
  proof
    assume run: "GreaterThanZeroEnv_steps gany
              (snd (GreaterThanZeroEnv_reset x0
                     (GreaterThanZeroEnv_run gcalls (GreaterThanZeroEnv_init n)))) = (Inr gres, gs)"
    from GreaterThanZeroEnv_steps_success_logs [OF run
        GreaterThanZeroEnv_fresh_episode(1,2) [of x0 gcalls n]]
    show "\<exists>acts obss. active_actions gs = Some acts \<and> active_observations gs = Some obss
               \<and> acts = map fst gany \<and> obss = [x0] # map (\<lambda>p. [snd p]) gany
               \<and> length gres = length gany
               \<and> length acts = length gany \<and> length obss = length acts + 1"
      by simp
  qed
  have tsecond: "TwoInARowEnv_steps tany
              (snd (TwoInARowEnv_reset r0
                     (TwoInARowEnv_run tcalls (TwoInARowEnv_init m)))) = (Inr tres, ts)
            \<longrightarrow>
            (\<exists>acts obss. active_actions ts = Some acts \<and> active_observations ts = Some obss
               \<and> acts = map fst tany
               \<and> obss = [int (r0 mod 2)] # map (\<lambda>p. [int (snd p mod 2)]) tany
               \<and> length tres = length tany
               \<and> length acts = length tany \<and> length obss = length acts + 1)"
  proof
    assume run: "TwoInARowEnv_steps tany
              (snd (TwoInARowEnv_reset r0
                     (TwoInARowEnv_run tcalls (TwoInARowEnv_init m)))) = (Inr tres, ts)"
    from TwoInARowEnv_steps_success_logs [OF run
        TwoInARowEnv_fresh_episode(1,2) [of r0 tcalls m]]
    show "\<exists>acts obss. active_actions ts = Some acts \<and> active_observations ts = Some obss
               \<and> acts = map fst tany
               \<and> obss = [int (r0 mod 2)] # map (\<lambda>p. [int (snd p mod 2)]) tany
               \<and> length tres = length tany
               \<and> length acts = length tany \<and> length obss = length acts + 1"
      by simp
  qed
  from first gsecond tsecond show ?thesis by blast
qed

theorem C2_logs_after_successful_steps_witness:
  "set (map fst [(1, 3/10), (0, -1/5 :: real)]) \<subseteq> {0, 1 :: int}
   \<and> int (length [(1 :: int, 3/10), (0, -1/5 :: real)]) \<le> 2
   \<and> set (map fst [(0, 5), (1, 6 :: nat)]) \<subseteq> {0, 1 :: int}
   \<and> int (length [(0 :: int, 5), (1, 6 :: nat)]) \<le> 2
   \<and> fst (GreaterThanZeroEnv_steps [(1, 3/10), (0, -1/5)]
          (snd (GreaterThanZeroEnv_reset (1/2)
                 (GreaterThanZeroEnv_run [Reset 1, Step 0 2] (GreaterThanZeroEnv_init 2)))))
       = Inr [([3/10], 1, False, []), ([-1/5], -1, True, [])]
   \<and> fst (TwoInARowEnv_steps [(0, 5), (1, 6)]
          (snd (TwoInARowEnv_reset 4
                 (TwoInARowEnv_run [Reset 1, Step 0 2] (TwoInARowEnv_init 2)))))
       = Inr [([1], 1, False, []), ([0], -1, True, [])]
   \<and> active_actions (snd (GreaterThanZeroEnv_steps [(1, 3/10), (0, -1/5)]
          (snd (GreaterThanZeroEnv_reset (1/2)
                 (GreaterThanZeroEnv_run [Reset 1, Step 0 2] (GreaterThanZeroEnv_init 2))))))
       = Some [1, 0]
   \<and> active_observations (snd (GreaterThanZeroEnv_steps [(1, 3/10), (0, -1/5)]
          (snd (GreaterThanZeroEnv_reset (1/2)
                 (GreaterThanZeroEnv_run [Reset 1, Step 0 2] (GreaterThanZeroEnv_init 2))))))
       = Some [[1/2], [3/10], [-1/5]]
   \<and> active_actions (snd (TwoInARowEnv_steps [(0, 5), (1, 6)]
          (snd (TwoInARowEnv_reset 4
                 (TwoInARowEnv_run [Reset 1, Step 0 2] (TwoInARowEnv_init 2))))))
       = Some [0, 1]
   \<and> active_observations (snd (TwoInARowEnv_steps [(0, 5), (1, 6)]
          (snd (TwoInARowEnv_reset 4
                 (TwoInARowEnv_run [Reset 1, Step 0 2] (TwoInARowEnv_init 2))))))
       = Some [[0], [1], [0]]"
proof -
  let ?gsteps = "[(1 :: int, 3/10), (0, -1/5 :: real)]"
  let ?tsteps = "[(0 :: int, 5), (1, 6 :: nat)]"
  let ?g = "GreaterThanZeroEnv_steps ?gsteps
          (snd (GreaterThanZeroEnv_reset (1/2)
                 (GreaterThanZeroEnv_run [Reset 1, Step 0 2] (GreaterThanZeroEnv_init 2))))"
  let ?t = "TwoInARowEnv_steps ?tsteps
          (snd (TwoInARowEnv_reset 4
                 (TwoInARowEnv_run [Reset 1, Step 0 2] (TwoInARowEnv_init 2))))"
  have h1: "set (map fst ?gsteps) \<subseteq> {0, 1 :: int}" by simp
  have h2: "int (length ?gsteps) \<le> 2" by simp
  have h3: "set (map fst ?tsteps) \<subseteq> {0, 1 :: int}" by simp
  have h4: "int (length ?tsteps) \<le> 2" by simp
  have g: "fst ?g = Inr [([3/10], 1, False, []), ([-1/5], -1, True, [])]"
    by (simp add: GreaterThanZeroEnv_run_def GreaterThanZeroEnv_eval)
  have t: "fst ?t = Inr [([1], 1, False, []), ([0], -1, True, [])]"
    by (simp add: TwoInARowEnv_run_def TwoInARowEnv_eval)
  have gr: "?g = (Inr [([3/10], 1, False, []), ([-1/5], -1, True, [])], snd ?g)"
    using g by (metis prod.collapse)
  have tr: "?t = (Inr [([1], 1, False, []), ([0], -1, True, [])], snd ?t)"
    using t by (metis prod.collapse)
  from C2_logs_after_successful_steps [OF h1 h2 h3 h4,
      where ?x0.0 = "1/2" and gcalls = "[Reset 1, Step 0 2]" and ?r0.0 = 4
        and tcalls = "[Reset 1, Step 0 2]" and gany = ?gsteps and tany = ?tsteps
        and gres = "[([3/10], 1, False, []), ([-1/5], -1, True, [])]" and gs = "snd ?g"
        and tres = "[([1], 1, False, []), ([0], -1, True, [])]" and ts = "snd ?t"] gr tr
  have "active_actions (snd ?g) = Some [1, 0]
      \<and> active_observations (snd ?g) = Some [[1/2], [3/10], [-1/5]]
      \<and> active_actions (snd ?t) = Some [0, 1]
      \<and> active_observations (snd ?t) = Some [[0], [1], [0]]"
    by auto
  with h1 h2 h3 h4 g t show ?thesis by blast
qed

subsection \<open>A call of step with an action outside 0 and 1\<close>

lemma GreaterThanZeroEnv_step_unstarted:
  assumes "curr_step s < max_steps_per_episode s" and "active_actions s = None"
  shows "GreaterThanZeroEnv_step a x s = (Inl IndexError, s\<lparr>curr_step := curr_step s + 1\<rparr>)"
proof -
  have "py_append_at (action_episode_memory s) (curr_episode s) a = None"
    using assms(2) unfolding active_actions_def by (rule py_append_at_None)
  then show ?thesis
    using assms(1) by (simp add: GreaterThanZeroEnv_step_def)
qed

lemma TwoInARowEnv_step_unstarted:
  assumes "curr_step s < max_steps_per_episode s" and "active_actions s = None"
  shows "TwoInARowEnv_step a r s = (Inl IndexError, s\<lparr>curr_step := curr_step s + 1\<rparr>)"
proof -
  have "py_append_at (action_episode_memory s) (curr_episode s) a = None"
    using assms(2) unfolding active_actions_def by (rule py_append_at_None)
  then show ?thesis
    using assms(1) by (simp add: TwoInARowEnv_step_def)
qed

lemma GreaterThanZeroEnv_step_invalid_error:
  assumes "a \<noteq> 0" and "a \<noteq> 1"
  shows "fst (GreaterThanZeroEnv_step a x s) =
           Inl (if max_steps_per_episode s \<le> curr_step s then RuntimeError ''Episode is done''
                else if active_actions s = None then IndexError
                else ValueError ''Invalid action '' a)"
proof (cases "max_steps_per_episode s \<le> curr_step s")
  case True
  then show ?thesis by (simp add: GreaterThanZeroEnv_step_exhausted)
next
  case False
  then have lt: "curr_step s < max_steps_per_episode s" by simp
  show ?thesis
  proof (cases "active_actions s")
    case None
    then show ?thesis
      using False by (simp add: GreaterThanZeroEnv_step_unstarted [OF lt None])
  next
    case (Some acts)
    from GreaterThanZeroEnv_step_invalid [OF lt Some assms, of x]
    show ?thesis using False Some by auto
  qed
qed

lemma TwoInARowEnv_step_invalid_error:
  assumes "a \<noteq> 0" and "a \<noteq> 1"
  shows "fst (TwoInARowEnv_step a r s) =
           Inl (if max_steps_per_episode s \<le> curr_step s then RuntimeError ''Episode is done''
                else if active_actions s = None then IndexError
                else ValueError ''Invalid action '' a)"
proof (cases "max_steps_per_episode s \<le> curr_step s")
  case True
  then show ?thesis by (simp add: TwoInARowEnv_step_exhausted)
next
  case False
  then have lt: "curr_step s < max_steps_per_episode s" by simp
  show ?thesis
  proof (cases "active_actions s")
    case None
    then show ?thesis
      using False by (simp add: TwoInARowEnv_step_unstarted [OF lt None])
  next
    case (Some acts)
    from TwoInARowEnv_step_invalid [OF lt Some assms, of r]
    show ?thesis using False Some by auto
  qed
qed

lemma GreaterThanZeroEnv_step_invalid_state:
  assumes "curr_step s < max_steps_per_episode s"
    and "active_actions s = Some acts"
    and "a \<noteq> 0" and "a \<noteq> 1"
  shows "\<exists>s'. GreaterThanZeroEnv_step a x s = (Inl (ValueError ''Invalid action '' a), s')
           \<and> curr_step s' = curr_step s + 1
           \<and> active_actions s' = Some (acts @ [a])
           \<and> length (action_episode_memory s') = length (action_episode_memory s)
           \<and> obs_episode_memory s' = obs_episode_memory s
           \<and> curr_episode s' = curr_episode s
           \<and> max_steps_per_episode s' = max_steps_per_episode s"
proof -
  from GreaterThanZeroEnv_step_invalid [OF assms, of x] obtain am where am:
    "GreaterThanZeroEnv_step a x s =
       (Inl (ValueError ''Invalid action '' a),
        s\<lparr>curr_step := curr_step s + 1, action_episode_memory := am\<rparr>)"
    "py_index am (curr_episode s) = Some (acts @ [a])"
    "length am = length (action_episode_memory s)"
    by blast
  show ?thesis
    by (rule exI [of _ "s\<lparr>curr_step := curr_step s + 1, action_episode_memory := am\<rparr>"])
       (simp add: am active_actions_def)
qed

lemma TwoInARowEnv_step_invalid_state:
  assumes "curr_step s < max_steps_per_episode s"
    and "active_actions s = Some acts"
    and "a \<noteq> 0" and "a \<noteq> 1"
  shows "\<exists>s'. TwoInARowEnv_step a r s = (Inl (ValueError ''Invalid action '' a), s')
           \<and> curr_step s' = curr_step s + 1
           \<and> active_actions s' = Some (acts @ [a])
           \<and> length (action_episode_memory s') = length (action_episode_memory s)
           \<and> obs_episode_memory s' = obs_episode_memory s
           \<and> curr_episode s' = curr_episode s
           \<and> max_steps_per_episode s' = max_steps_per_episode s"
proof -
  from TwoInARowEnv_step_invalid [OF assms, of r] obtain am where am:
    "TwoInARowEnv_step a r s =
       (Inl (ValueError ''Invalid action '' a),
        s\<lparr>curr_step := curr_step s + 1, action_episode_memory := am\<rparr>)"
    "py_index am (curr_episode s) = Some (acts @ [a])"
    "length am = length (action_episode_memory s)"
    by blast
  show ?thesis
    by (rule exI [of _ "s\<lparr>curr_step := curr_step s + 1, action_episode_memory := am\<rparr>"])
       (simp add: am active_actions_def)
qed

text \<open>
  Claim C1, as stated, fails. After \<open>reset\<close> with \<open>max_steps_per_episode = 100\<close>,
  \<open>step(2)\<close> raises ValueError, and the state it leaves has the step count 1 instead
  of 0 and the action log \<open>[2]\<close> instead of the empty one.
\<close>

theorem C1_invalid_action_changes_state:
  "fst (GreaterThanZeroEnv_step 2 (3/10)
         (snd (GreaterThanZeroEnv_reset (1/2) (GreaterThanZeroEnv_init 100))))
     = Inl (ValueError ''Invalid action '' 2)
   \<and> curr_step (snd (GreaterThanZeroEnv_reset (1/2) (GreaterThanZeroEnv_init 100))) = 0
   \<and> curr_step (snd (GreaterThanZeroEnv_step 2 (3/10)
         (snd (GreaterThanZeroEnv_reset (1/2) (GreaterThanZeroEnv_init 100))))) = 1
   \<and> action_episode_memory (snd (GreaterThanZeroEnv_reset (1/2) (GreaterThanZeroEnv_init 100)))
     = [[]]
   \<and> action_episode_memory (snd (GreaterThanZeroEnv_step 2 (3/10)
         (snd (GreaterThanZeroEnv_reset (1/2) (GreaterThanZeroEnv_init 100))))) = [[2]]
   \<and> snd (GreaterThanZeroEnv_step 2 (3/10)
         (snd (GreaterThanZeroEnv_reset (1/2) (GreaterThanZeroEnv_init 100))))
     \<noteq> snd (GreaterThanZeroEnv_reset (1/2) (GreaterThanZeroEnv_init 100))"
  by (simp add: GreaterThanZeroEnv_eval)

text \<open>
  Claim C1, amended. In a state whose episode is active (\<open>curr_episode\<close> indexes an
  action log) and not exhausted, \<open>step\<close> with an action outside \<open>{0, 1}\<close> raises
  \<open>ValueError('Invalid action ', action)\<close> (the specification's InvalidAction) and
  leaves the observation memory, the episode index and the limit as they were; the
  step count has been incremented by one and the action has been appended to the
  active action log, since the validation comes after both. Both environments.
\<close>

theorem C1_invalid_action_raises_after_append:
  fixes s :: "real list env" and t :: "int list env"
  shows "(curr_step s < max_steps_per_episode s \<and> active_actions s = Some acts
            \<and> a \<noteq> 0 \<and> a \<noteq> 1 \<longrightarrow>
          (\<exists>s'. GreaterThanZeroEnv_step a x s = (Inl (ValueError ''Invalid action '' a), s')
             \<and> curr_step s' = curr_step s + 1
             \<and> active_actions s' = Some (acts @ [a])
             \<and> length (action_episode_memory s') = length (action_episode_memory s)
             \<and> obs_episode_memory s' = obs_episode_memory s
             \<and> curr_episode s' = curr_episode s
             \<and> max_steps_per_episode s' = max_steps_per_episode s))
       \<and> (curr_step t < max_steps_per_episode t \<and> active_actions t = Some acts'
            \<and> b \<noteq> 0 \<and> b \<noteq> 1 \<longrightarrow>
          (\<exists>t'. TwoInARowEnv_step b r t = (Inl (ValueError ''Invalid action '' b), t')
             \<and> curr_step t' = curr_step t + 1
             \<and> active_actions t' = Some (acts' @ [b])
             \<and> length (action_episode_memory t') = length (action_episode_memory t)
             \<and> obs_episode_memory t' = obs_episode_memory t
             \<and> curr_episode t' = curr_episode t
             \<and> max_steps_per_episode t' = max_steps_per_episode t))"
  using GreaterThanZeroEnv_step_invalid_state [of s acts a x]
    TwoInARowEnv_step_invalid_state [of t acts' b r]
  by blast


theorem C1_invalid_action_raises_after_append_witness:
  "curr_step (snd (GreaterThanZeroEnv_reset (1/2) (GreaterThanZeroEnv_init 100)))
     < max_steps_per_episode (snd (GreaterThanZeroEnv_reset (1/2) (GreaterThanZeroEnv_init 100)))
   \<and> active_actions (snd (GreaterThanZeroEnv_reset (1/2) (GreaterThanZeroEnv_init 100)))
     = Some []
   \<and> (2 :: int) \<noteq> 0 \<and> (2 :: int) \<noteq> 1
   \<and> fst (GreaterThanZeroEnv_step 2 (3/10)
         (snd (GreaterThanZeroEnv_reset (1/2) (GreaterThanZeroEnv_init 100))))
     = Inl (ValueError ''Invalid action '' 2)
   \<and> active_actions (snd (GreaterThanZeroEnv_step 2 (3/10)
         (snd (GreaterThanZeroEnv_reset (1/2) (GreaterThanZeroEnv_init 100))))) = Some [2]
   \<and> curr_step (snd (GreaterThanZeroEnv_step 2 (3/10)
         (snd (GreaterThanZeroEnv_reset (1/2) (GreaterThanZeroEnv_init 100))))) = 1
   \<and> curr_step (snd (TwoInARowEnv_reset 4 (TwoInARowEnv_init 100)))
     < max_steps_per_episode (snd (TwoInARowEnv_reset 4 (TwoInARowEnv_init 100)))
   \<and> active_actions (snd (TwoInARowEnv_reset 4 (TwoInARowEnv_init 100))) = Some []
   \<and> (- 1 :: int) \<noteq> 0 \<and> (- 1 :: int) \<noteq> 1
   \<and> fst (TwoInARowEnv_step (- 1) 3 (snd (TwoInARowEnv_reset 4 (TwoInARowEnv_init 100))))
     = Inl (ValueError ''Invalid action '' (- 1))
   \<and> active_actions (snd (TwoInARowEnv_step (- 1) 3
         (snd (TwoInARowEnv_reset 4 (TwoInARowEnv_init 100))))) = Some [- 1]
   \<and> curr_step (snd (TwoInARowEnv_step (- 1) 3
         (snd (TwoInARowEnv_reset 4 (TwoInARowEnv_init 100))))) = 1"
proof -
  let ?s = "snd (GreaterThanZeroEnv_reset (1/2) (GreaterThanZeroEnv_init 100))"
  let ?t = "snd (TwoInARowEnv_reset 4 (TwoInARowEnv_init 100))"
  have g: "curr_step ?s < max_steps_per_episode ?s" "active_actions ?s = Some []"
    "curr_step ?s = 0"
    by (simp_all add: GreaterThanZeroEnv_eval active_actions_def)
  have p: "curr_step ?t < max_steps_per_episode ?t" "active_actions ?t = Some []"
    "curr_step ?t = 0"
    by (simp_all add: TwoInARowEnv_eval active_actions_def)
  have n: "(2 :: int) \<noteq> 0" "(2 :: int) \<noteq> 1" "(- 1 :: int) \<noteq> 0" "(- 1 :: int) \<noteq> 1"
    by simp_all
  from C1_invalid_action_raises_after_append [where s = ?s and acts = "[]" and a = 2
      and x = "3/10" and t = ?t and acts' = "[]" and b = "- 1" and r = 3] g p n
  show ?thesis by auto
qed

text \<open>
  Claim C5, as stated, fails. With \<open>max_steps_per_episode = 1\<close>, after \<open>reset\<close> and one
  successful step the episode is exhausted, and \<open>step(2)\<close> then raises
  \<open>RuntimeError("Episode is done")\<close>, not ValueError: the test of the step count is the
  first statement of \<open>step\<close>.
\<close>

theorem C5_exhausted_wins_over_invalid:
  "fst (GreaterThanZeroEnv_step 1 (3/10)
         (snd (GreaterThanZeroEnv_reset (1/2) (GreaterThanZeroEnv_init 1))))
     = Inr ([3/10], 1, True, [])
   \<and> fst (GreaterThanZeroEnv_step 2 (1/10)
         (snd (GreaterThanZeroEnv_step 1 (3/10)
                (snd (GreaterThanZeroEnv_reset (1/2) (GreaterThanZeroEnv_init 1))))))
     = Inl (RuntimeError ''Episode is done'')
   \<and> fst (GreaterThanZeroEnv_step 2 (1/10)
         (snd (GreaterThanZeroEnv_step 1 (3/10)
                (snd (GreaterThanZeroEnv_reset (1/2) (GreaterThanZeroEnv_init 1))))))
     \<noteq> Inl (ValueError ''Invalid action '' 2)"
  by (simp add: GreaterThanZeroEnv_eval)

text \<open>
  Claim C5, amended. \<open>step\<close> validates the action after the test of the step count and
  after the append to the action log, so what a call with an action outside \<open>{0, 1}\<close>
  raises depends on the episode: \<open>RuntimeError("Episode is done")\<close> when the episode is
  exhausted, \<open>ValueError('Invalid action ', action)\<close> when the episode is active and not
  exhausted, and IndexError when it is not exhausted and \<open>curr_episode\<close> indexes no
  action log (before the first \<open>reset\<close>). Both environments.
\<close>

theorem C5_invalid_action_error_by_episode_status:
  fixes s :: "real list env" and t :: "int list env"
  assumes "a \<noteq> 0" and "a \<noteq> 1"
  shows "fst (GreaterThanZeroEnv_step a x s) =
           Inl (if max_steps_per_episode s \<le> curr_step s then RuntimeError ''Episode is done''
                else if active_actions s = None then IndexError
                else ValueError ''Invalid action '' a)
       \<and> fst (TwoInARowEnv_step a r t) =
           Inl (if max_steps_per_episode t \<le> curr_step t then RuntimeError ''Episode is done''
                else if active_actions t = None then IndexError
                else ValueError ''Invalid action '' a)"
  using GreaterThanZeroEnv_step_invalid_error [OF assms, of x s]
    TwoInARowEnv_step_invalid_error [OF assms, of r t]
  by simp

theorem C5_invalid_action_error_by_episode_status_witness:
  "(2 :: int) \<noteq> 0 \<and> (2 :: int) \<noteq> 1
   \<and> fst (GreaterThanZeroEnv_step 2 (1/10)
         (snd (GreaterThanZeroEnv_reset (1/2) (GreaterThanZeroEnv_init 1))))
     = Inl (ValueError ''Invalid action '' 2)
   \<and> fst (TwoInARowEnv_step 2 3 (snd (TwoInARowEnv_reset 4 (TwoInARowEnv_init 0))))
     = Inl (RuntimeError ''Episode is done'')"
proof -
  have n: "(2 :: int) \<noteq> 0" "(2 :: int) \<noteq> 1" by simp_all
  let ?s = "snd (GreaterThanZeroEnv_reset (1/2) (GreaterThanZeroEnv_init 1))"
  let ?t = "snd (TwoInARowEnv_reset 4 (TwoInARowEnv_init 0))"
  have g: "\<not> max_steps_per_episode ?s \<le> curr_step ?s" "active_actions ?s \<noteq> None"
    by (simp_all add: GreaterThanZeroEnv_eval active_actions_def)
  have p: "max_steps_per_episode ?t \<le> curr_step ?t"
    by (simp add: TwoInARowEnv_eval)
  from C5_invalid_action_error_by_episode_status [OF n, of "1/10" ?s 3 ?t] g p n
  show ?thesis by simp
qed

text \<open>
  Claim C6. In \<open>GreaterThanZeroEnv\<close>, in a state whose episode is active and not
  exhausted and whose most recent recorded observation is \<open>[v]\<close>, \<open>step\<close> with an
  action \<open>a\<close> in \<open>{0, 1}\<close> returns, and the reward it returns is \<open>+1\<close> if \<open>v > 0\<close> and
  \<open>a = 1\<close>, or \<open>v \<le> 0\<close> and \<open>a = 0\<close>, and \<open>-1\<close> otherwise.
\<close>

theorem C6_sign_detection_reward:
  assumes "curr_step s < max_steps_per_episode s"
    and "active_actions s = Some acts"
    and "active_observations s = Some obss"
    and "obss \<noteq> []" and "last obss = [v]"
    and "a = 0 \<or> a = 1"
  shows "\<exists>res s'. GreaterThanZeroEnv_step a x s = (Inr res, s')
           \<and> reward_of res = (if (v > 0 \<and> a = 1) \<or> (v \<le> 0 \<and> a = 0) then 1 else -1)"
proof -
  from GreaterThanZeroEnv_step_valid [OF assms, of x]
  obtain am om where st:
    "GreaterThanZeroEnv_step a x s =
       (Inr ([x], (if v > 0 then (if a = 1 then 1 else -1) else (if a = 1 then -1 else 1)),
             curr_step s + 1 \<ge> max_steps_per_episode s, []),
        s\<lparr>curr_step := curr_step s + 1, action_episode_memory := am,
          obs_episode_memory := om\<rparr>)"
    by blast
  have "reward_of (([x], (if v > 0 then (if a = 1 then 1 else -1) else (if a = 1 then -1 else 1)),
             curr_step s + 1 \<ge> max_steps_per_episode s, []) :: real list step_result)
        = (if (v > 0 \<and> a = 1) \<or> (v \<le> 0 \<and> a = 0) then 1 else -1)"
    using assms(6) by (auto simp add: reward_of_def)
  with st show ?thesis by blast
qed

theorem C6_sign_detection_reward_witness:
  "reward_of (projr (fst (GreaterThanZeroEnv_step 1 (3/10)
       (snd (GreaterThanZeroEnv_reset (1/2) (GreaterThanZeroEnv_init 100)))))) = 1
   \<and> reward_of (projr (fst (GreaterThanZeroEnv_step 0 (3/10)
       (snd (GreaterThanZeroEnv_reset (1/2) (GreaterThanZeroEnv_init 100)))))) = - 1
   \<and> curr_step (snd (GreaterThanZeroEnv_reset (1/2) (GreaterThanZeroEnv_init 100)))
       < max_steps_per_episode (snd (GreaterThanZeroEnv_reset (1/2) (GreaterThanZeroEnv_init 100)))
   \<and> active_actions (snd (GreaterThanZeroEnv_reset (1/2) (GreaterThanZeroEnv_init 100)))
       = Some []
   \<and> active_observations (snd (GreaterThanZeroEnv_reset (1/2) (GreaterThanZeroEnv_init 100)))
       = Some [[1/2]]
   \<and> [[1/2 :: real]] \<noteq> [] \<and> last [[1/2 :: real]] = [1/2]
   \<and> ((1 :: int) = 0 \<or> (1 :: int) = 1) \<and> ((0 :: int) = 0 \<or> (0 :: int) = 1)"
proof -
  let ?s = "snd (GreaterThanZeroEnv_reset (1/2) (GreaterThanZeroEnv_init 100))"
  have h: "curr_step ?s < max_steps_per_episode ?s" "active_actions ?s = Some []"
    "active_observations ?s = Some [[1/2]]" "[[1/2 :: real]] \<noteq> []"
    "last [[1/2 :: real]] = [1/2]"
    by (simp_all add: GreaterThanZeroEnv_eval active_actions_def active_observations_def)
  have a1: "(1 :: int) = 0 \<or> (1 :: int) = 1" and a0: "(0 :: int) = 0 \<or> (0 :: int) = 1"
    by simp_all
  from C6_sign_detection_reward [OF h a1, of "3/10"]
  have r1: "reward_of (projr (fst (GreaterThanZeroEnv_step 1 (3/10) ?s))) = 1"
    by auto
  from C6_sign_detection_reward [OF h a0, of "3/10"]
  have r0: "reward_of (projr (fst (GreaterThanZeroEnv_step 0 (3/10) ?s))) = - 1"
    by auto
  from r1 r0 h a1 a0 show ?thesis by blast
qed

lemma TwoInARowEnv_step_reward:
  assumes "curr_step s < max_steps_per_episode s"
    and "active_actions s = Some acts"
    and "active_observations s = Some obss"
    and "a = 0 \<or> a = 1"
  shows "\<exists>res s'. TwoInARowEnv_step a r s = (Inr res, s')
           \<and> reward_of res =
               (if length obss < 2 then (if a = 0 then 1 else -1)
                else if obss ! (length obss - 2) = obss ! (length obss - 1)
                     then (if a = 1 then 1 else -1)
                     else (if a = 0 then 1 else -1))"
proof -
  from TwoInARowEnv_step_valid [OF assms, of r]
  obtain am om where st:
    "TwoInARowEnv_step a r s =
       (Inr ([int (r mod 2)],
             (if length obss < 2 then (if a = 0 then 1 else -1)
              else if obss ! (length obss - 2) = obss ! (length obss - 1)
                   then (if a = 1 then 1 else -1)
                   else (if a = 0 then 1 else -1)),
             curr_step s + 1 \<ge> max_steps_per_episode s, []),
        s\<lparr>curr_step := curr_step s + 1, action_episode_memory := am,
          obs_episode_memory := om\<rparr>)"
    by blast
  show ?thesis
    unfolding st by (simp add: reward_of_def)
qed

text \<open>
  Claim C7. In \<open>TwoInARowEnv\<close>, in a state whose episode is active and not exhausted,
  \<open>step\<close> with an action \<open>a\<close> in \<open>{0, 1}\<close> returns. When fewer than two observations
  are recorded in the episode, the reward is \<open>+1\<close> if \<open>a = 0\<close> and \<open>-1\<close> otherwise.
  When the observation log ends with \<open>p, q\<close>, the reward is \<open>+1\<close> if \<open>a = 1\<close> else
  \<open>-1\<close> when \<open>p = q\<close>, and \<open>+1\<close> if \<open>a = 0\<close> else \<open>-1\<close> when they differ. The first
  step after a \<open>reset\<close> is in the first case.
\<close>

theorem C7_consecutive_match_reward:
  assumes "curr_step s < max_steps_per_episode s"
    and "active_actions s = Some acts"
    and "active_observations s = Some obss"
    and "a = 0 \<or> a = 1"
  shows "(\<exists>res s'. TwoInARowEnv_step a r s = (Inr res, s')
           \<and> (length obss < 2 \<longrightarrow> reward_of res = (if a = 0 then 1 else -1))
           \<and> (\<forall>pre p q. obss = pre @ [p, q] \<longrightarrow>
                 reward_of res = (if p = q then (if a = 1 then 1 else -1)
                                  else (if a = 0 then 1 else -1))))
       \<and> (0 < n \<longrightarrow>
           (\<exists>res s'. TwoInARowEnv_step a r
                        (snd (TwoInARowEnv_reset r0
                               (TwoInARowEnv_run calls (TwoInARowEnv_init n)))) = (Inr res, s')
              \<and> reward_of res = (if a = 0 then 1 else -1)))"
proof
  from TwoInARowEnv_step_reward [OF assms, of r]
  obtain res s' where st: "TwoInARowEnv_step a r s = (Inr res, s')"
    "reward_of res =
               (if length obss < 2 then (if a = 0 then 1 else -1)
                else if obss ! (length obss - 2) = obss ! (length obss - 1)
                     then (if a = 1 then 1 else -1)
                     else (if a = 0 then 1 else -1))"
    by blast
  have c1: "length obss < 2 \<longrightarrow> reward_of res = (if a = 0 then 1 else -1)"
    unfolding st(2) by simp
  have c2: "\<forall>pre p q. obss = pre @ [p, q] \<longrightarrow>
                 reward_of res = (if p = q then (if a = 1 then 1 else -1)
                                  else (if a = 0 then 1 else -1))"
    unfolding st(2) by (auto simp add: nth_append)
  from st(1) c1 c2
  show "\<exists>res s'. TwoInARowEnv_step a r s = (Inr res, s')
           \<and> (length obss < 2 \<longrightarrow> reward_of res = (if a = 0 then 1 else -1))
           \<and> (\<forall>pre p q. obss = pre @ [p, q] \<longrightarrow>
                 reward_of res = (if p = q then (if a = 1 then 1 else -1)
                                  else (if a = 0 then 1 else -1)))"
    by blast
next
  let ?s1 = "snd (TwoInARowEnv_reset r0 (TwoInARowEnv_run calls (TwoInARowEnv_init n)))"
  note f = TwoInARowEnv_fresh_episode [of r0 calls n]
  show "0 < n \<longrightarrow>
           (\<exists>res s'. TwoInARowEnv_step a r ?s1 = (Inr res, s')
              \<and> reward_of res = (if a = 0 then 1 else -1))"
  proof
    assume "0 < n"
    then have lt: "curr_step ?s1 < max_steps_per_episode ?s1"
      by (simp add: f(3,4))
    from TwoInARowEnv_step_reward [OF lt f(1) f(2) assms(4), of r]
    show "\<exists>res s'. TwoInARowEnv_step a r ?s1 = (Inr res, s')
              \<and> reward_of res = (if a = 0 then 1 else -1)"
      by simp
  qed
qed

theorem C7_consecutive_match_reward_witness:
  "reward_of (projr (fst (TwoInARowEnv_step 1 4
       \<lparr>max_steps_per_episode = 100, version = ''0.0.2'', curr_episode = 0,
        obs_episode_memory = [[[0], [1], [1]]], action_episode_memory = [[0, 1]],
        curr_step = 2, action_space = Discrete 2, observation_space = Discrete 2\<rparr>))) = 1
   \<and> reward_of (projr (fst (TwoInARowEnv_step 1 4
       \<lparr>max_steps_per_episode = 100, version = ''0.0.2'', curr_episode = 0,
        obs_episode_memory = [[[1], [0]]], action_episode_memory = [[0]],
        curr_step = 1, action_space = Discrete 2, observation_space = Discrete 2\<rparr>))) = - 1
   \<and> reward_of (projr (fst (TwoInARowEnv_step 0 4
       \<lparr>max_steps_per_episode = 100, version = ''0.0.2'', curr_episode = 0,
        obs_episode_memory = [[[1]]], action_episode_memory = [[]],
        curr_step = 0, action_space = Discrete 2, observation_space = Discrete 2\<rparr>))) = 1
   \<and> reward_of (projr (fst (TwoInARowEnv_step 0 4
       (snd (TwoInARowEnv_reset 7 (TwoInARowEnv_run [] (TwoInARowEnv_init 100))))))) = 1"
proof -
  let ?s11 = "\<lparr>max_steps_per_episode = 100, version = ''0.0.2'', curr_episode = 0,
        obs_episode_memory = [[[0], [1], [1 :: int]]], action_episode_memory = [[0, 1]],
        curr_step = 2, action_space = Discrete 2, observation_space = Discrete 2\<rparr>"
  let ?s10 = "\<lparr>max_steps_per_episode = 100, version = ''0.0.2'', curr_episode = 0,
        obs_episode_memory = [[[1], [0 :: int]]], action_episode_memory = [[0]],
        curr_step = 1, action_space = Discrete 2, observation_space = Discrete 2\<rparr>"
  let ?sf = "\<lparr>max_steps_per_episode = 100, version = ''0.0.2'', curr_episode = 0,
        obs_episode_memory = [[[1 :: int]]], action_episode_memory = [[]],
        curr_step = 0, action_space = Discrete 2, observation_space = Discrete 2\<rparr>"
  have a1: "(1 :: int) = 0 \<or> (1 :: int) = 1" and a0: "(0 :: int) = 0 \<or> (0 :: int) = 1"
    by simp_all
  have h11: "curr_step ?s11 < max_steps_per_episode ?s11" "active_actions ?s11 = Some [0, 1]"
    "active_observations ?s11 = Some ([[0]] @ [[1], [1]])"
    by (simp_all add: active_actions_def active_observations_def py_index_def)
  have h10: "curr_step ?s10 < max_steps_per_episode ?s10" "active_actions ?s10 = Some [0]"
    "active_observations ?s10 = Some ([] @ [[1], [0]])"
    by (simp_all add: active_actions_def active_observations_def py_index_def)
  have hf: "curr_step ?sf < max_steps_per_episode ?sf" "active_actions ?sf = Some []"
    "active_observations ?sf = Some [[1]]"
    by (simp_all add: active_actions_def active_observations_def py_index_def)
  have n: "(0 :: int) < 100" by simp
  from C7_consecutive_match_reward [OF h11 a1, of 4 100 7 "[]"]
  have r11: "reward_of (projr (fst (TwoInARowEnv_step 1 4 ?s11))) = 1"
    by auto
  from C7_consecutive_match_reward [OF h10 a1, of 4 100 7 "[]"]
  have r10: "reward_of (projr (fst (TwoInARowEnv_step 1 4 ?s10))) = - 1"
    by auto
  from C7_consecutive_match_reward [OF hf a0, of 4 100 7 "[]"] n
  have rf: "reward_of (projr (fst (TwoInARowEnv_step 0 4 ?sf))) = 1"
    and rr: "reward_of (projr (fst (TwoInARowEnv_step 0 4
       (snd (TwoInARowEnv_reset 7 (TwoInARowEnv_run [] (TwoInARowEnv_init 100))))))) = 1"
    by auto
  from r11 r10 rf rr show ?thesis by blast
qed

text \<open>
  Claim C8. \<open>reset\<close> raises in no state. It adds one to \<open>curr_episode\<close> (which is 0
  after the first call, and differs after two calls in a row), sets \<open>curr_step\<close> to 0,
  appends an empty action log and an observation log holding only the initial
  observation, and returns that observation: \<open>[x]\<close> for the real sample \<open>x\<close> in
  \<open>GreaterThanZeroEnv\<close>, \<open>[0]\<close> or \<open>[1]\<close> in \<open>TwoInARowEnv\<close>. In every state the
  environment can reach, the appended record is the active one.
\<close>

theorem C8_reset_starts_fresh_episode:
  fixes s :: "real list env" and t :: "int list env"
  shows "fst (GreaterThanZeroEnv_reset x s) = [x]
       \<and> curr_episode (snd (GreaterThanZeroEnv_reset x s)) = curr_episode s + 1
       \<and> curr_step (snd (GreaterThanZeroEnv_reset x s)) = 0
       \<and> action_episode_memory (snd (GreaterThanZeroEnv_reset x s))
           = action_episode_memory s @ [[]]
       \<and> obs_episode_memory (snd (GreaterThanZeroEnv_reset x s))
           = obs_episode_memory s @ [[fst (GreaterThanZeroEnv_reset x s)]]
       \<and> max_steps_per_episode (snd (GreaterThanZeroEnv_reset x s)) = max_steps_per_episode s
       \<and> curr_episode (snd (GreaterThanZeroEnv_reset x (GreaterThanZeroEnv_init n))) = 0
       \<and> curr_episode (snd (GreaterThanZeroEnv_reset y (snd (GreaterThanZeroEnv_reset x s))))
           \<noteq> curr_episode (snd (GreaterThanZeroEnv_reset x s))
       \<and> obs_episode_memory (snd (GreaterThanZeroEnv_reset y (snd (GreaterThanZeroEnv_reset x s))))
           = obs_episode_memory s @ [[[x]], [[y]]]
       \<and> active_observations
            (snd (GreaterThanZeroEnv_reset x
                   (GreaterThanZeroEnv_run gcalls (GreaterThanZeroEnv_init n)))) = Some [[x]]
       \<and> active_actions
            (snd (GreaterThanZeroEnv_reset x
                   (GreaterThanZeroEnv_run gcalls (GreaterThanZeroEnv_init n)))) = Some []
       \<and> (\<exists>v. fst (TwoInARowEnv_reset r t) = Inr [v] \<and> (v = 0 \<or> v = 1)
              \<and> obs_episode_memory (snd (TwoInARowEnv_reset r t))
                  = obs_episode_memory t @ [[[v]]]
              \<and> active_observations
                   (snd (TwoInARowEnv_reset r
                          (TwoInARowEnv_run tcalls (TwoInARowEnv_init n)))) = Some [[v]])
       \<and> curr_episode (snd (TwoInARowEnv_reset r t)) = curr_episode t + 1
       \<and> curr_step (snd (TwoInARowEnv_reset r t)) = 0
       \<and> action_episode_memory (snd (TwoInARowEnv_reset r t)) = action_episode_memory t @ [[]]
       \<and> max_steps_per_episode (snd (TwoInARowEnv_reset r t)) = max_steps_per_episode t
       \<and> curr_episode (snd (TwoInARowEnv_reset r (TwoInARowEnv_init n))) = 0
       \<and> curr_episode (snd (TwoInARowEnv_reset q (snd (TwoInARowEnv_reset r t))))
           \<noteq> curr_episode (snd (TwoInARowEnv_reset r t))
       \<and> active_actions
            (snd (TwoInARowEnv_reset r
                   (TwoInARowEnv_run tcalls (TwoInARowEnv_init n)))) = Some []"
proof -
  have v: "int (r mod 2) = 0 \<or> int (r mod 2) = 1" by presburger
  have g: "fst (GreaterThanZeroEnv_reset x s) = [x]
       \<and> curr_episode (snd (GreaterThanZeroEnv_reset x s)) = curr_episode s + 1
       \<and> curr_step (snd (GreaterThanZeroEnv_reset x s)) = 0
       \<and> action_episode_memory (snd (GreaterThanZeroEnv_reset x s))
           = action_episode_memory s @ [[]]
       \<and> obs_episode_memory (snd (GreaterThanZeroEnv_reset x s))
           = obs_episode_memory s @ [[fst (GreaterThanZeroEnv_reset x s)]]
       \<and> max_steps_per_episode (snd (GreaterThanZeroEnv_reset x s)) = max_steps_per_episode s
       \<and> curr_episode (snd (GreaterThanZeroEnv_reset x (GreaterThanZeroEnv_init n))) = 0
       \<and> curr_episode (snd (GreaterThanZeroEnv_reset y (snd (GreaterThanZeroEnv_reset x s))))
           \<noteq> curr_episode (snd (GreaterThanZeroEnv_reset x s))
       \<and> obs_episode_memory (snd (GreaterThanZeroEnv_reset y (snd (GreaterThanZeroEnv_reset x s))))
           = obs_episode_memory s @ [[[x]], [[y]]]"
    by (simp add: GreaterThanZeroEnv_reset_eq GreaterThanZeroEnv_init_def)
  have p: "fst (TwoInARowEnv_reset r t) = Inr [int (r mod 2)]
       \<and> obs_episode_memory (snd (TwoInARowEnv_reset r t))
           = obs_episode_memory t @ [[[int (r mod 2)]]]
       \<and> curr_episode (snd (TwoInARowEnv_reset r t)) = curr_episode t + 1
       \<and> curr_step (snd (TwoInARowEnv_reset r t)) = 0
       \<and> action_episode_memory (snd (TwoInARowEnv_reset r t)) = action_episode_memory t @ [[]]
       \<and> max_steps_per_episode (snd (TwoInARowEnv_reset r t)) = max_steps_per_episode t
       \<and> curr_episode (snd (TwoInARowEnv_reset r (TwoInARowEnv_init n))) = 0
       \<and> curr_episode (snd (TwoInARowEnv_reset q (snd (TwoInARowEnv_reset r t))))
           \<noteq> curr_episode (snd (TwoInARowEnv_reset r t))"
    by (simp add: TwoInARowEnv_reset_eq TwoInARowEnv_init_def)
  note gf = GreaterThanZeroEnv_fresh_episode(1,2) [of x gcalls n]
  note pf = TwoInARowEnv_fresh_episode(1,2) [of r tcalls n]
  from g p gf pf v show ?thesis by blast
qed


theorem C8_reset_starts_fresh_episode_witness:
  "fst (GreaterThanZeroEnv_reset (1/2) (GreaterThanZeroEnv_init 100)) = [1/2]
   \<and> curr_episode (snd (GreaterThanZeroEnv_reset (1/2) (GreaterThanZeroEnv_init 100))) = 0
   \<and> curr_episode (snd (GreaterThanZeroEnv_reset (- 3)
         (snd (GreaterThanZeroEnv_reset (1/2) (GreaterThanZeroEnv_init 100))))) = 1
   \<and> obs_episode_memory (snd (GreaterThanZeroEnv_reset (- 3)
         (snd (GreaterThanZeroEnv_reset (1/2) (GreaterThanZeroEnv_init 100)))))
       = [[[1/2]], [[- 3]]]
   \<and> fst (TwoInARowEnv_reset 7 (TwoInARowEnv_init 100)) = Inr [1]
   \<and> curr_episode (snd (TwoInARowEnv_reset 7 (TwoInARowEnv_init 100))) = 0"
proof -
  have e: "curr_episode (GreaterThanZeroEnv_init 100) = - 1"
    "obs_episode_memory (GreaterThanZeroEnv_init 100) = []"
    "curr_episode (TwoInARowEnv_init 100) = - 1"
    by (simp_all add: GreaterThanZeroEnv_init_def TwoInARowEnv_init_def)
  have r: "fst (TwoInARowEnv_reset 7 (TwoInARowEnv_init 100)) = Inr [1]"
    by (simp add: TwoInARowEnv_reset_eq)
  from C8_reset_starts_fresh_episode [of "1/2" "GreaterThanZeroEnv_init 100" 100 "- 3" "[]"
      7 "TwoInARowEnv_init 100" "[]" 0]
    C8_reset_starts_fresh_episode [of "- 3"
      "snd (GreaterThanZeroEnv_reset (1/2) (GreaterThanZeroEnv_init 100))" 100 0 "[]"
      7 "TwoInARowEnv_init 100" "[]" 0] e r
  show ?thesis by simp
qed

subsection \<open>The calls and the table of q_values\<close>
















end
